theory Spec2Isabelle
  imports Main "HOL-Library.Word" "HOL-Library.Code_Target_Nat"
begin

section \<open>JavaScript values and strings\<close>

text \<open>
  The batch upload handler (\<^verbatim>\<open>onRequestPost\<close>) and the mime type helpers
  (\<^verbatim>\<open>functions/utils/mimeType.js\<close>) are embedded as HOL functions.

  A JavaScript string is a list of characters. HOL characters are 8 bits wide, so the
  model covers the strings whose UTF-16 code units are all below 256; on these,
  \<open>length\<close> is JavaScript's \<^verbatim>\<open>.length\<close>.

  A JavaScript value is a JSON value, \<^verbatim>\<open>undefined\<close>, or a built-in function named by
  the constructor \<open>Native\<close>. Numbers are the integral ones. An object is the list of its
  own properties in enumeration order.
\<close>

datatype jsval =
    Undefined
  | Null
  | Bool bool
  | Num int
  | Str string
  | Arr "jsval list"
  | Obj "(string \<times> jsval) list"
  | Native string

text \<open>Truthiness, as \<^verbatim>\<open>if (v)\<close>, \<^verbatim>\<open>!v\<close> and \<^verbatim>\<open>v || d\<close> see it.\<close>

fun truthy :: "jsval \<Rightarrow> bool" where
  "truthy Undefined = False"
| "truthy Null = False"
| "truthy (Bool b) = b"
| "truthy (Num n) = (n \<noteq> 0)"
| "truthy (Str s) = (s \<noteq> [])"
| "truthy (Arr xs) = True"
| "truthy (Obj kvs) = True"
| "truthy (Native f) = True"

text \<open>\<^verbatim>\<open>typeof v === 'string'\<close> and \<^verbatim>\<open>typeof v === 'object'\<close> (which holds of null and of arrays).\<close>

fun is_string :: "jsval \<Rightarrow> bool" where
  "is_string (Str s) = True"
| "is_string v = False"

fun typeof_object :: "jsval \<Rightarrow> bool" where
  "typeof_object Null = True"
| "typeof_object (Arr xs) = True"
| "typeof_object (Obj kvs) = True"
| "typeof_object v = False"

text \<open>Property read \<^verbatim>\<open>v.k\<close> on a value that is not null or undefined: own properties of
  an object, \<^verbatim>\<open>undefined\<close> for the property names the handler reads on anything else.\<close>

fun get_prop :: "jsval \<Rightarrow> string \<Rightarrow> jsval" where
  "get_prop (Obj kvs) k = (case map_of kvs k of Some v \<Rightarrow> v | None \<Rightarrow> Undefined)"
| "get_prop v k = Undefined"

text \<open>Property write \<^verbatim>\<open>o.k = v\<close> on an object: an existing property keeps its place, a new
  one goes last.\<close>

fun set_field :: "string \<Rightarrow> jsval \<Rightarrow> (string \<times> jsval) list \<Rightarrow> (string \<times> jsval) list" where
  "set_field k v [] = [(k, v)]"
| "set_field k v ((k', v') # kvs) =
     (if k' = k then (k, v) # kvs else (k', v') # set_field k v kvs)"

text \<open>An object literal as \<^verbatim>\<open>JSON.stringify\<close> writes it: properties whose value is
  \<^verbatim>\<open>undefined\<close> are left out.\<close>

definition json_obj :: "(string \<times> jsval) list \<Rightarrow> jsval" where
  "json_obj kvs = Obj (filter (\<lambda>kv. snd kv \<noteq> Undefined) kvs)"

subsection \<open>Strings\<close>

text \<open>White space of \<^verbatim>\<open>String.prototype.trim\<close> and of \<^verbatim>\<open>\s\<close> in a regular expression,
  among the code units below 256: TAB, LF, VT, FF, CR, SPACE and NBSP.\<close>

definition is_js_space :: "char \<Rightarrow> bool" where
  "is_js_space c \<longleftrightarrow>
     c \<in> set [CHR 0x09, CHR 0x0A, CHR 0x0B, CHR 0x0C, CHR 0x0D, CHR 0x20, CHR 0xA0]"

definition drop_trailing :: "(char \<Rightarrow> bool) \<Rightarrow> string \<Rightarrow> string" where
  "drop_trailing P s = rev (dropWhile P (rev s))"

definition js_trim :: "string \<Rightarrow> string" where
  "js_trim s = drop_trailing is_js_space (dropWhile is_js_space s)"

definition starts_with :: "string \<Rightarrow> string \<Rightarrow> bool" where
  "starts_with s p \<longleftrightarrow> take (length p) s = p"

definition ends_with :: "string \<Rightarrow> string \<Rightarrow> bool" where
  "ends_with s p \<longleftrightarrow> length p \<le> length s \<and> drop (length s - length p) s = p"

text \<open>\<^verbatim>\<open>s.split(d)\<close> for a one-character separator: never empty, \<^verbatim>\<open>''.split('/')\<close> is
  \<^verbatim>\<open>['']\<close>.\<close>

fun js_split :: "char \<Rightarrow> string \<Rightarrow> string list" where
  "js_split d [] = [[]]"
| "js_split d (c # cs) =
     (if c = d then [] # js_split d cs
      else (case js_split d cs of
              [] \<Rightarrow> [[c]]
            | x # xs \<Rightarrow> (c # x) # xs))"

text \<open>\<^verbatim>\<open>xs.join(d)\<close>.\<close>

fun js_join :: "string \<Rightarrow> string list \<Rightarrow> string" where
  "js_join d [] = []"
| "js_join d [x] = x"
| "js_join d (x # y # ys) = x @ d @ js_join d (y # ys)"

text \<open>\<^verbatim>\<open>s.indexOf(c)\<close>: \<open>None\<close> stands for -1.\<close>

fun index_of :: "char \<Rightarrow> string \<Rightarrow> nat option" where
  "index_of c [] = None"
| "index_of c (x # xs) =
     (if x = c then Some 0 else map_option Suc (index_of c xs))"

text \<open>Decimal digits of a number, as template literals and \<^verbatim>\<open>String\<close> print it.\<close>

fun show_nat :: "nat \<Rightarrow> string" where
  "show_nat n =
     (if n < 10 then [''0123456789'' ! n]
      else show_nat (n div 10) @ [''0123456789'' ! (n mod 10)])"

declare show_nat.simps [simp del]

definition show_int :: "int \<Rightarrow> string" where
  "show_int i = (if i < 0 then CHR ''-'' # show_nat (nat (- i)) else show_nat (nat i))"

text \<open>\<^verbatim>\<open>String(v)\<close>. In an array, null and undefined elements print as the empty string.\<close>

fun js_String :: "jsval \<Rightarrow> string" where
  "js_String Undefined = ''undefined''"
| "js_String Null = ''null''"
| "js_String (Bool b) = (if b then ''true'' else ''false'')"
| "js_String (Num n) = show_int n"
| "js_String (Str s) = s"
| "js_String (Arr xs) =
     js_join '','' (map (\<lambda>x. if x = Null \<or> x = Undefined then [] else js_String x) xs)"
| "js_String (Obj kvs) = ''[object Object]''"
| "js_String (Native f) = ''function '' @ f @ ''() { [native code] }''"

section \<open>Errors and responses\<close>

text \<open>
  A thrown error is a record of the properties the handler reads from it; \<open>None\<close> is a
  property that is absent. \<^verbatim>\<open>createApiError\<close> builds an error with the code, message and
  status given (the status defaults to 500) and no other property.
\<close>

record api_error =
  err_message :: "string option"
  err_code :: "string option"
  err_status :: "int option"
  err_stage :: "string option"
  err_retryAfterSeconds :: "int option"
  err_uploadedFiles :: "(string \<times> jsval) list list option"

definition createApiError :: "string \<Rightarrow> string \<Rightarrow> int \<Rightarrow> api_error" where
  "createApiError c m st =
     \<lparr> err_message = Some m, err_code = Some c, err_status = Some st,
       err_stage = None, err_retryAfterSeconds = None, err_uploadedFiles = None \<rparr>"

record http_response =
  resp_body :: jsval
  resp_status :: int
  resp_headers :: "(string \<times> string) list"

definition jsonResponse :: "jsval \<Rightarrow> int \<Rightarrow> http_response" where
  "jsonResponse data st =
     \<lparr> resp_body = data, resp_status = st,
       resp_headers =
         [(''Content-Type'', ''application/json''),
          (''Access-Control-Allow-Origin'', ''*''),
          (''Access-Control-Allow-Methods'', ''POST, OPTIONS''),
          (''Access-Control-Allow-Headers'', ''Content-Type, Authorization, authCode'')] \<rparr>"

section \<open>The normalizer\<close>

definition DEFAULT_MAX_FILES :: int where
  "DEFAULT_MAX_FILES = 50"

definition DEFAULT_MAX_TOTAL_SIZE :: int where
  "DEFAULT_MAX_TOTAL_SIZE = 80 * 1024 * 1024"

definition DEFAULT_MAX_SINGLE_FILE_SIZE :: int where
  "DEFAULT_MAX_SINGLE_FILE_SIZE = 20 * 1024 * 1024"

text \<open>\<^verbatim>\<open>parseLimit\<close>, on what \<^verbatim>\<open>Number.parseInt(value, 10)\<close> returned: \<open>None\<close> is NaN or an
  infinity.\<close>

definition parseLimit :: "int option \<Rightarrow> int \<Rightarrow> int" where
  "parseLimit parsed fallback =
     (case parsed of
        Some n \<Rightarrow> if n > 0 then n else fallback
      | None \<Rightarrow> fallback)"

definition is_slash :: "char \<Rightarrow> bool" where
  "is_slash c \<longleftrightarrow> c = CHR ''/''"

text \<open>\<^verbatim>\<open>.replace(/\/{2,}/g, '/')\<close>: every run of slashes becomes one slash.\<close>

fun collapse_slashes :: "string \<Rightarrow> string" where
  "collapse_slashes (a # b # cs) =
     (if is_slash a \<and> is_slash b then collapse_slashes (b # cs)
      else a # collapse_slashes (b # cs))"
| "collapse_slashes cs = cs"

text \<open>The checks of the loop over the segments; the first offending segment raises.\<close>

fun check_segments :: "string list \<Rightarrow> api_error option" where
  "check_segments [] = None"
| "check_segments (seg # segs) =
     (if seg = [] \<or> seg = ''.'' \<or> seg = ''..'' then
        Some (createApiError ''INVALID_REQUEST''
                ''Invalid uploadFolder: contains illegal path segment'' 400)
      else if starts_with seg ''manage@'' then
        Some (createApiError ''INVALID_REQUEST''
                ''Invalid uploadFolder: reserved segment name'' 400)
      else check_segments segs)"

definition normalizeUploadFolder :: "jsval \<Rightarrow> api_error + string" where
  "normalizeUploadFolder uploadFolder =
     (if uploadFolder = Null \<or> uploadFolder = Undefined then Inr []
      else
        let normalized =
              collapse_slashes
                (drop_trailing is_slash
                  (dropWhile is_slash (js_trim (js_String uploadFolder))))
        in if normalized = [] then Inr []
           else (case check_segments (js_split CHR ''/'' normalized) of
                   Some e \<Rightarrow> Inl e
                 | None \<Rightarrow> Inr normalized))"

definition normalizeFileName :: "jsval \<Rightarrow> api_error + string" where
  "normalizeFileName name =
     (case name of
        Str n \<Rightarrow>
          (let trimmed = js_trim n in
           if trimmed = [] then
             Inl (createApiError ''INVALID_REQUEST'' ''File name cannot be empty'' 400)
           else if length trimmed > 255 then
             Inl (createApiError ''INVALID_REQUEST'' ''File name is too long'' 400)
           else if trimmed = ''.'' \<or> trimmed = ''..'' then
             Inl (createApiError ''INVALID_REQUEST'' ''File name cannot be . or ..'' 400)
           else if CHR ''/'' \<in> set trimmed \<or> CHR 0x5C \<in> set trimmed then
             Inl (createApiError ''INVALID_REQUEST''
                    ''File name cannot contain path separators'' 400)
           else if starts_with trimmed ''manage@'' then
             Inl (createApiError ''INVALID_REQUEST''
                    ''File name cannot use reserved prefix'' 400)
           else Inr trimmed)
      | _ \<Rightarrow> Inl (createApiError ''INVALID_REQUEST'' ''File name must be a string'' 400))"

text \<open>\<^verbatim>\<open>normalizeMimeType\<close> of the handler's own module (the helper module has another
  function of that name, \<open>normalizeMimeType_util\<close> below).\<close>

definition normalizeMimeType :: "jsval \<Rightarrow> string" where
  "normalizeMimeType mimeType =
     (case mimeType of
        Str m \<Rightarrow> if js_trim m = [] then ''application/octet-stream'' else js_trim m
      | _ \<Rightarrow> ''application/octet-stream'')"

definition normalizeContentBase64 :: "jsval \<Rightarrow> api_error + string" where
  "normalizeContentBase64 contentBase64 =
     (case contentBase64 of
        Str c \<Rightarrow>
          if js_trim c = [] then
            Inl (createApiError ''INVALID_REQUEST'' ''contentBase64 is required'' 400)
          else
            (let v = js_trim c;
                 rawBase64 =
                   (case index_of CHR '','' v of
                      Some commaIndex \<Rightarrow>
                        if starts_with v ''data:'' then drop (commaIndex + 1) v else v
                    | None \<Rightarrow> v)
             in Inr (filter (\<lambda>ch. \<not> is_js_space ch) rawBase64))
      | _ \<Rightarrow> Inl (createApiError ''INVALID_REQUEST'' ''contentBase64 is required'' 400))"

definition estimateBase64Size :: "string \<Rightarrow> int" where
  "estimateBase64Size base64Data =
     (let len = length base64Data in
      if len = 0 then 0
      else
        let padding = (if ends_with base64Data ''=='' then 2
                       else if ends_with base64Data ''='' then 1 else 0 :: int)
        in max 0 (int (len * 3 div 4) - padding))"

subsection \<open>The platform's \<^verbatim>\<open>atob\<close>\<close>

text \<open>
  \<^verbatim>\<open>atob\<close> is the forgiving base64 decoder of the WHATWG Infra standard: ASCII white space
  is removed; if the length is then a multiple of 4, one or two trailing \<^verbatim>\<open>=\<close> are removed;
  a length that leaves remainder 1 and any character outside the alphabet are failures
  (\<open>None\<close>, where \<^verbatim>\<open>atob\<close> throws); every 4 characters give 3 bytes, 2 left over give 1
  byte and 3 left over give 2 bytes, the bits beyond being dropped. The result is a binary
  string, one character per byte.
\<close>

definition is_ascii_ws :: "char \<Rightarrow> bool" where
  "is_ascii_ws c \<longleftrightarrow> c \<in> set [CHR 0x09, CHR 0x0A, CHR 0x0C, CHR 0x0D, CHR 0x20]"

definition b64_alphabet :: string where
  "b64_alphabet = ''ABCDEFGHIJKLMNOPQRSTUVWXYZabcdefghijklmnopqrstuvwxyz0123456789+/''"

definition b64_value :: "char \<Rightarrow> nat option" where
  "b64_value c = index_of c b64_alphabet"

fun b64_all_values :: "string \<Rightarrow> nat list option" where
  "b64_all_values [] = Some []"
| "b64_all_values (c # cs) =
     (case b64_value c of
        None \<Rightarrow> None
      | Some v \<Rightarrow> map_option (\<lambda>vs. v # vs) (b64_all_values cs))"

fun b64_bytes :: "nat list \<Rightarrow> nat list" where
  "b64_bytes (a # b # c # d # rest) =
     (let n = ((a * 64 + b) * 64 + c) * 64 + d
      in n div 65536 # n div 256 mod 256 # n mod 256 # b64_bytes rest)"
| "b64_bytes [a, b, c] = (let n = ((a * 64 + b) * 64 + c) div 4 in [n div 256, n mod 256])"
| "b64_bytes [a, b] = [(a * 64 + b) div 16]"
| "b64_bytes [a] = []"
| "b64_bytes [] = []"

definition strip_padding :: "string \<Rightarrow> string" where
  "strip_padding d =
     (if length d mod 4 = 0 then
        (if ends_with d ''=='' then take (length d - 2) d
         else if ends_with d ''='' then take (length d - 1) d
         else d)
      else d)"

definition atob :: "string \<Rightarrow> string option" where
  "atob data =
     (let d = strip_padding (filter (\<lambda>c. \<not> is_ascii_ws c) data) in
      if length d mod 4 = 1 then None
      else map_option (\<lambda>vs. map char_of (b64_bytes vs)) (b64_all_values d))"

text \<open>\<^verbatim>\<open>decodeBase64ToUint8Array\<close>: the bytes are the character codes of the binary
  string.\<close>

definition decodeBase64ToUint8Array :: "string \<Rightarrow> api_error + 8 word list" where
  "decodeBase64ToUint8Array base64Data =
     (case atob base64Data of
        None \<Rightarrow> Inl (createApiError ''INVALID_REQUEST'' ''Invalid base64 content'' 400)
      | Some binary \<Rightarrow> Inr (map (\<lambda>ch. of_nat (of_char ch)) binary))"

subsection \<open>Classification of errors\<close>

text \<open>\<^verbatim>\<open>v || null\<close> on an optional number, \<^verbatim>\<open>status || 400\<close> on an optional status.\<close>

definition num_or_null :: "int option \<Rightarrow> jsval" where
  "num_or_null v = (case v of Some n \<Rightarrow> if n \<noteq> 0 then Num n else Null | None \<Rightarrow> Null)"

definition status_or :: "int option \<Rightarrow> int \<Rightarrow> int" where
  "status_or v d = (case v of Some n \<Rightarrow> if n \<noteq> 0 then n else d | None \<Rightarrow> d)"

definition opt_str :: "string option \<Rightarrow> jsval" where
  "opt_str v = (case v of Some s \<Rightarrow> Str s | None \<Rightarrow> Undefined)"

definition staged_entry :: "(string \<times> jsval) list \<Rightarrow> jsval" where
  "staged_entry item =
     json_obj [(''name'', get_prop (Obj item) ''name''),
               (''filePath'', get_prop (Obj item) ''filePath'')]"

definition toErrorResponse :: "api_error \<Rightarrow> string \<Rightarrow> http_response" where
  "toErrorResponse error fallbackCode =
     (if err_code error = Some ''INVALID_REQUEST'' then
        jsonResponse
          (json_obj [(''success'', Bool False),
                     (''code'', Str ''INVALID_REQUEST''),
                     (''error'', opt_str (err_message error))])
          (status_or (err_status error) 400)
      else if err_status error = Some 429 then
        jsonResponse
          (json_obj [(''success'', Bool False),
                     (''code'', Str ''RATE_LIMIT''),
                     (''error'', opt_str (err_message error)),
                     (''retryAfterSeconds'', num_or_null (err_retryAfterSeconds error))])
          429
      else if err_status error = Some 401 \<or> err_status error = Some 403 then
        jsonResponse
          (json_obj [(''success'', Bool False),
                     (''code'', Str ''AUTH_ERROR''),
                     (''error'', opt_str (err_message error))])
          401
      else if err_stage error = Some ''commit'' then
        jsonResponse
          (json_obj [(''success'', Bool False),
                     (''code'', Str ''PARTIAL_UPLOAD_NOT_COMMITTED''),
                     (''error'', opt_str (err_message error)),
                     (''retryAfterSeconds'', num_or_null (err_retryAfterSeconds error)),
                     (''uploadedFiles'',
                        Arr (map staged_entry
                               (case err_uploadedFiles error of
                                  Some items \<Rightarrow> items
                                | None \<Rightarrow> [])))])
          502
      else
        jsonResponse
          (json_obj [(''success'', Bool False),
                     (''code'', Str fallbackCode),
                     (''error'',
                        (case err_message error of
                           Some m \<Rightarrow> if m \<noteq> [] then Str m else Str ''Unknown error''
                         | None \<Rightarrow> Str ''Unknown error''))])
          500)"

section \<open>Mime types (\<^verbatim>\<open>functions/utils/mimeType.js\<close>)\<close>

text \<open>
  \<^verbatim>\<open>EXTENSION_MIME_MAP\<close> is an object literal, so a read \<^verbatim>\<open>EXTENSION_MIME_MAP[k]\<close> finds
  the 32 own properties first and then the properties inherited from
  \<^verbatim>\<open>Object.prototype\<close>: built-in functions, and for \<^verbatim>\<open>__proto__\<close> the prototype object
  itself.
\<close>

definition EXTENSION_MIME_MAP :: "(string \<times> string) list" where
  "EXTENSION_MIME_MAP =
     [(''avif'', ''image/avif''),
      (''bmp'', ''image/bmp''),
      (''css'', ''text/css; charset=utf-8''),
      (''csv'', ''text/csv; charset=utf-8''),
      (''gif'', ''image/gif''),
      (''heic'', ''image/heic''),
      (''heif'', ''image/heif''),
      (''htm'', ''text/html; charset=utf-8''),
      (''html'', ''text/html; charset=utf-8''),
      (''ico'', ''image/x-icon''),
      (''jpeg'', ''image/jpeg''),
      (''jpg'', ''image/jpeg''),
      (''js'', ''application/javascript; charset=utf-8''),
      (''json'', ''application/json; charset=utf-8''),
      (''md'', ''text/markdown; charset=utf-8''),
      (''mp3'', ''audio/mpeg''),
      (''mp4'', ''video/mp4''),
      (''mpeg'', ''video/mpeg''),
      (''mpg'', ''video/mpeg''),
      (''m4a'', ''audio/mp4''),
      (''mov'', ''video/quicktime''),
      (''pdf'', ''application/pdf''),
      (''png'', ''image/png''),
      (''svg'', ''image/svg+xml''),
      (''tif'', ''image/tiff''),
      (''tiff'', ''image/tiff''),
      (''txt'', ''text/plain; charset=utf-8''),
      (''wav'', ''audio/wav''),
      (''webm'', ''video/webm''),
      (''webp'', ''image/webp''),
      (''xml'', ''application/xml; charset=utf-8''),
      (''zip'', ''application/zip'')]"

definition Object_prototype_functions :: "string list" where
  "Object_prototype_functions =
     [''constructor'', ''__defineGetter__'', ''__defineSetter__'', ''hasOwnProperty'',
      ''__lookupGetter__'', ''__lookupSetter__'', ''isPrototypeOf'',
      ''propertyIsEnumerable'', ''toString'', ''valueOf'', ''toLocaleString'']"

definition EXTENSION_MIME_MAP_get :: "string \<Rightarrow> jsval" where
  "EXTENSION_MIME_MAP_get k =
     (case map_of EXTENSION_MIME_MAP k of
        Some v \<Rightarrow> Str v
      | None \<Rightarrow>
          if k \<in> set Object_prototype_functions then
            Native (if k = ''constructor'' then ''Object'' else k)
          else if k = ''__proto__'' then Obj []
          else Undefined)"

text \<open>
  \<^verbatim>\<open>MIME_PATTERN\<close> is
  \<^verbatim>\<open>/^[a-z0-9!#$&^_.+-]+\/[a-z0-9!#$&^_.+-]+(?:\s*;\s*.+)?$/i\<close>. The class matches
  letters of either case; \<^verbatim>\<open>.\<close> matches every character but a line terminator.
\<close>

definition is_mime_token_char :: "char \<Rightarrow> bool" where
  "is_mime_token_char c \<longleftrightarrow>
     c \<in> set (''abcdefghijklmnopqrstuvwxyz'' @ ''ABCDEFGHIJKLMNOPQRSTUVWXYZ'' @
              ''0123456789'' @ ''!#$&^_.+-'')"

definition is_line_terminator :: "char \<Rightarrow> bool" where
  "is_line_terminator c \<longleftrightarrow> c = CHR 0x0A \<or> c = CHR 0x0D"

text \<open>\<^verbatim>\<open>\s*.+$\<close> on the rest of the input: some split leaves white space before it and a
  non-empty run without line terminators after it.\<close>

definition matches_ws_any :: "string \<Rightarrow> bool" where
  "matches_ws_any r \<longleftrightarrow>
     list_ex (\<lambda>k. list_all is_js_space (take k r) \<and> drop k r \<noteq> [] \<and>
                  list_all (\<lambda>c. \<not> is_line_terminator c) (drop k r))
             [0 ..< Suc (length r)]"

text \<open>\<^verbatim>\<open>\s*;\s*.+$\<close> on the rest of the input.\<close>

definition matches_params :: "string \<Rightarrow> bool" where
  "matches_params r \<longleftrightarrow>
     (case dropWhile is_js_space r of
        [] \<Rightarrow> False
      | c # r2 \<Rightarrow> c = CHR '';'' \<and> matches_ws_any r2)"

definition MIME_PATTERN_test :: "string \<Rightarrow> bool" where
  "MIME_PATTERN_test s \<longleftrightarrow>
     takeWhile is_mime_token_char s \<noteq> [] \<and>
     (case dropWhile is_mime_token_char s of
        [] \<Rightarrow> False
      | c # r \<Rightarrow>
          c = CHR ''/'' \<and> takeWhile is_mime_token_char r \<noteq> [] \<and>
          (dropWhile is_mime_token_char r = [] \<or>
           matches_params (dropWhile is_mime_token_char r)))"

text \<open>\<^verbatim>\<open>toLowerCase\<close> on code units below 256: the letters A to Z and the capital letters
  of Latin-1 (0xC0 to 0xDE but the multiplication sign 0xD7) move up by 32.\<close>

definition js_lower_char :: "char \<Rightarrow> char" where
  "js_lower_char c =
     (let n = (of_char c :: nat) in
      if (65 \<le> n \<and> n \<le> 90) \<or> (192 \<le> n \<and> n \<le> 222 \<and> n \<noteq> 215)
      then char_of (n + 32) else c)"

definition toLowerCase :: "string \<Rightarrow> string" where
  "toLowerCase s = map js_lower_char s"

text \<open>\<^verbatim>\<open>s.split(c)[0]\<close>: what comes before the first separator.\<close>

definition split_first :: "char \<Rightarrow> string \<Rightarrow> string" where
  "split_first c s = (case js_split c s of [] \<Rightarrow> [] | x # xs \<Rightarrow> x)"

text \<open>\<^verbatim>\<open>s.split(c).pop()\<close>: what comes after the last separator.\<close>

definition split_last :: "char \<Rightarrow> string \<Rightarrow> string" where
  "split_last c s = (case rev (js_split c s) of [] \<Rightarrow> [] | x # xs \<Rightarrow> x)"

text \<open>\<^verbatim>\<open>s.lastIndexOf(c)\<close>: \<open>None\<close> stands for -1.\<close>

definition last_index_of :: "char \<Rightarrow> string \<Rightarrow> nat option" where
  "last_index_of c s = map_option (\<lambda>i. length s - 1 - i) (index_of c (rev s))"

definition toBaseMimeType :: "jsval \<Rightarrow> string option" where
  "toBaseMimeType mimeType =
     (case mimeType of
        Str m \<Rightarrow>
          (let trimmed = js_trim m in
           if trimmed = [] then None
           else
             let baseType = toLowerCase (js_trim (split_first CHR '';'' trimmed))
             in if baseType = [] then None else Some baseType)
      | _ \<Rightarrow> None)"

text \<open>\<^verbatim>\<open>normalizeMimeType\<close> of the helper module; \<open>None\<close> is null.\<close>

definition normalizeMimeType_util :: "jsval \<Rightarrow> string option" where
  "normalizeMimeType_util mimeType =
     (case mimeType of
        Str m \<Rightarrow>
          (let trimmed = js_trim m in
           if trimmed = [] \<or> \<not> MIME_PATTERN_test trimmed then None else Some trimmed)
      | _ \<Rightarrow> None)"

definition isOctetStreamMimeType :: "jsval \<Rightarrow> bool" where
  "isOctetStreamMimeType mimeType \<longleftrightarrow>
     toBaseMimeType mimeType = Some ''application/octet-stream''"

text \<open>The extension that \<^verbatim>\<open>inferMimeTypeFromFileName\<close> looks up, \<open>None\<close> where it returns
  null before the lookup.\<close>

definition file_extension :: "string \<Rightarrow> string option" where
  "file_extension fileName =
     (let normalizedFileName = split_first CHR ''#'' (split_first CHR ''?'' fileName);
          baseName = split_last CHR ''/'' normalizedFileName
      in if baseName = [] then None
         else (case last_index_of CHR ''.'' baseName of
                 None \<Rightarrow> None
               | Some dotIndex \<Rightarrow>
                   if dotIndex = 0 \<or> dotIndex = length baseName - 1 then None
                   else Some (toLowerCase (drop (dotIndex + 1) baseName))))"

definition inferMimeTypeFromFileName :: "jsval \<Rightarrow> jsval" where
  "inferMimeTypeFromFileName fileName =
     (case fileName of
        Str f \<Rightarrow>
          if js_trim f = [] then Null
          else (case file_extension f of
                  None \<Rightarrow> Null
                | Some extension \<Rightarrow>
                    if truthy (EXTENSION_MIME_MAP_get extension)
                    then EXTENSION_MIME_MAP_get extension else Null)
      | _ \<Rightarrow> Null)"

definition extractMimeTypeFromDataUrl :: "jsval \<Rightarrow> string option" where
  "extractMimeTypeFromDataUrl v =
     (case v of
        Str s \<Rightarrow>
          (let trimmed = js_trim s in
           if \<not> starts_with trimmed ''data:'' then None
           else (case index_of CHR '','' trimmed of
                   None \<Rightarrow> None
                 | Some commaIndex \<Rightarrow>
                     if commaIndex \<le> 5 then None
                     else normalizeMimeType_util
                            (Str (js_trim (split_first CHR '';''
                                             (drop 5 (take commaIndex trimmed)))))))
      | _ \<Rightarrow> None)"

text \<open>
  \<^verbatim>\<open>resolveMimeType(mimeType, fileName, options)\<close>. The two options are passed as they
  are read from \<^verbatim>\<open>options\<close>; an option that is \<^verbatim>\<open>undefined\<close> takes its default.
\<close>

definition resolveMimeType :: "jsval \<Rightarrow> jsval \<Rightarrow> jsval \<Rightarrow> jsval \<Rightarrow> jsval" where
  "resolveMimeType mimeType fileName dataUrlValueOpt defaultMimeTypeOpt =
     (let dataUrlValue = (if dataUrlValueOpt = Undefined then Null else dataUrlValueOpt);
          defaultMimeType =
            (if defaultMimeTypeOpt = Undefined then Str ''application/octet-stream''
             else defaultMimeTypeOpt);
          normalizedInput = normalizeMimeType_util mimeType
      in case (case normalizedInput of
                 Some n \<Rightarrow> if \<not> isOctetStreamMimeType (Str n) then Some n else None
               | None \<Rightarrow> None) of
           Some n \<Rightarrow> Str n
         | None \<Rightarrow>
             (case extractMimeTypeFromDataUrl dataUrlValue of
                Some d \<Rightarrow> Str d
              | None \<Rightarrow>
                  if truthy (inferMimeTypeFromFileName fileName)
                  then inferMimeTypeFromFileName fileName
                  else (case normalizedInput of
                          Some n \<Rightarrow> Str n
                        | None \<Rightarrow> defaultMimeType)))"

section \<open>The batch upload handler\<close>

subsection \<open>Small helpers of the handler's module\<close>

text \<open>\<^verbatim>\<open>v?.k\<close>: reading through null or undefined gives \<^verbatim>\<open>undefined\<close>.\<close>

definition opt_get :: "jsval \<Rightarrow> string \<Rightarrow> jsval" where
  "opt_get v k = (if v = Null \<or> v = Undefined then Undefined else get_prop v k)"

text \<open>\<^verbatim>\<open>a || b\<close>.\<close>

definition js_or :: "jsval \<Rightarrow> jsval \<Rightarrow> jsval" where
  "js_or a b = (if truthy a then a else b)"

text \<open>A destructuring default: it replaces \<^verbatim>\<open>undefined\<close> only.\<close>

definition with_default :: "jsval \<Rightarrow> jsval \<Rightarrow> jsval" where
  "with_default v d = (if v = Undefined then d else v)"

text \<open>\<^verbatim>\<open>a === b\<close>: primitives are compared by value; two objects, arrays or functions
  that come from different places are different references.\<close>

fun strict_eq :: "jsval \<Rightarrow> jsval \<Rightarrow> bool" where
  "strict_eq Undefined b = (b = Undefined)"
| "strict_eq Null b = (b = Null)"
| "strict_eq (Bool x) b = (b = Bool x)"
| "strict_eq (Num x) b = (b = Num x)"
| "strict_eq (Str x) b = (b = Str x)"
| "strict_eq a b = False"

text \<open>The error of reading a property of null or undefined. Its message is the
  engine's; it has no code, status or stage.\<close>

definition TypeError :: api_error where
  "TypeError =
     \<lparr> err_message = Some ''TypeError'', err_code = None, err_status = None,
       err_stage = None, err_retryAfterSeconds = None, err_uploadedFiles = None \<rparr>"

text \<open>\<^verbatim>\<open>encodeURIComponent\<close> on code units below 256: the unreserved characters stay, the
  others are written as the percent-encoded bytes of their UTF-8 form.\<close>

definition uri_unreserved :: "char \<Rightarrow> bool" where
  "uri_unreserved c \<longleftrightarrow>
     c \<in> set (''abcdefghijklmnopqrstuvwxyz'' @ ''ABCDEFGHIJKLMNOPQRSTUVWXYZ'' @
              ''0123456789'' @ ''-_.!~*()'' @ [CHR 0x27])"

definition percent_byte :: "nat \<Rightarrow> string" where
  "percent_byte n =
     [CHR ''%'', ''0123456789ABCDEF'' ! (n div 16 mod 16), ''0123456789ABCDEF'' ! (n mod 16)]"

definition encode_char :: "char \<Rightarrow> string" where
  "encode_char c =
     (let n = (of_char c :: nat) in
      if uri_unreserved c then [c]
      else if n < 128 then percent_byte n
      else percent_byte (192 + n div 64) @ percent_byte (128 + n mod 64))"

definition encodeURIComponent :: "string \<Rightarrow> string" where
  "encodeURIComponent s = concat (map encode_char s)"

definition encodeFileIdForUrl :: "string \<Rightarrow> string" where
  "encodeFileIdForUrl fileId =
     js_join ''/'' (map encodeURIComponent (js_split CHR ''/'' fileId))"

definition extractCommitId :: "jsval \<Rightarrow> jsval" where
  "extractCommitId commitResult =
     js_or (opt_get (opt_get commitResult ''commit'') ''oid'')
       (js_or (opt_get (opt_get commitResult ''commit'') ''id'')
          (js_or (opt_get commitResult ''commitOid'')
             (js_or (opt_get commitResult ''oid'') Null)))"

text \<open>\<^verbatim>\<open>channels.find(channel => channel.name === channelName)\<close>: reading the name of a
  null entry raises.\<close>

fun find_channel :: "jsval \<Rightarrow> jsval list \<Rightarrow> api_error + jsval" where
  "find_channel channelName [] = Inr Undefined"
| "find_channel channelName (channel # channels) =
     (if channel = Null \<or> channel = Undefined then Inl TypeError
      else if strict_eq (get_prop channel ''name'') channelName then Inr channel
      else find_channel channelName channels)"

text \<open>
  \<^verbatim>\<open>selectHuggingFaceChannel\<close>. The first argument is the value of
  \<^verbatim>\<open>Math.floor(Math.random() * channels.length)\<close>, any index of the list. The handler
  calls the function only when \<^verbatim>\<open>hfSettings.channels\<close> is an array; another value gives
  null here.
\<close>

definition selectHuggingFaceChannel :: "nat \<Rightarrow> jsval \<Rightarrow> jsval \<Rightarrow> api_error + jsval" where
  "selectHuggingFaceChannel rnd hfSettings channelName =
     (case opt_get hfSettings ''channels'' of
        Arr channels \<Rightarrow>
          if channels = [] then Inr Null
          else if truthy channelName then
            (case find_channel channelName channels of
               Inl e \<Rightarrow> Inl e
             | Inr found \<Rightarrow> Inr (js_or found Null))
          else if truthy (opt_get (get_prop hfSettings ''loadBalance'') ''enabled'') then
            Inr (channels ! (rnd mod length channels))
          else Inr (channels ! 0)
      | _ \<Rightarrow> Inr Null)"

subsection \<open>The collaborators, the store and the trace of a run\<close>

text \<open>
  \<^verbatim>\<open>new Blob([bytes], { type })\<close>: the type is kept in lower case when all its
  characters are printable ASCII, and is empty otherwise.
\<close>

record blob =
  blob_bytes :: "8 word list"
  blob_type :: string

definition ascii_lower_char :: "char \<Rightarrow> char" where
  "ascii_lower_char c =
     (let n = (of_char c :: nat) in if 65 \<le> n \<and> n \<le> 90 then char_of (n + 32) else c)"

definition new_Blob :: "8 word list \<Rightarrow> string \<Rightarrow> blob" where
  "new_Blob bytes ty =
     \<lparr> blob_bytes = bytes,
       blob_type =
         (if list_all (\<lambda>c. 32 \<le> (of_char c :: nat) \<and> (of_char c :: nat) \<le> 126) ty
          then map ascii_lower_char ty else []) \<rparr>"

record prepared_file =
  pf_name :: string
  pf_fullId :: string
  pf_filePath :: string
  pf_mimeType :: string
  pf_fileBlob :: blob
  pf_contentBase64 :: string
  pf_precomputedSha256 :: jsval
  pf_metadata :: "(string \<times> jsval) list"

text \<open>One entry of the list passed to \<^verbatim>\<open>uploadFilesInSingleCommit\<close>, and one invocation
  of it on the client built from the channel's token, repository and visibility.\<close>

record upload_file =
  uf_name :: string
  uf_file :: blob
  uf_filePath :: string
  uf_precomputedSha256 :: jsval
  uf_contentBase64 :: string

record commit_call =
  cc_token :: jsval
  cc_repo :: jsval
  cc_isPrivate :: jsval
  cc_files :: "upload_file list"
  cc_summary :: string

text \<open>
  The collaborators of one run. A collaborator that may raise returns a sum. The
  environment variables are given as \<^verbatim>\<open>Number.parseInt\<close> reads them;
  \<open>request_json\<close> is \<open>None\<close> when \<^verbatim>\<open>request.json()\<close> raises.
\<close>

record world =
  env_HF_BATCH_MAX_FILES :: "int option"
  env_HF_BATCH_MAX_TOTAL_SIZE :: "int option"
  env_HF_BATCH_MAX_SINGLE_FILE_SIZE :: "int option"
  userAuthCheck :: "api_error + bool"
  request_json :: "jsval option"
  fetchUploadConfig :: "api_error + jsval"
  random_index :: nat
  getUploadIp :: jsval
  getIPAddress :: "api_error + jsval"
  Date_now :: int
  getImageDimensions :: "8 word list \<Rightarrow> string \<Rightarrow> api_error + jsval"
  uploadFilesInSingleCommit :: "commit_call \<Rightarrow> api_error + jsval"
  getFileURL :: "string \<Rightarrow> jsval"
  fetchSecurityConfig :: "api_error + jsval"
  moderateContent :: "jsval \<Rightarrow> api_error + jsval"
  url_hostname :: string

text \<open>
  The key-value store holds texts. A text is kept as what \<^verbatim>\<open>JSON.parse\<close> makes of it:
  \<open>Json v\<close> is the text \<^verbatim>\<open>JSON.stringify(v)\<close>, which parses to \<open>v\<close>; \<open>Text s\<close> is a text
  \<open>s\<close> on which \<^verbatim>\<open>JSON.parse\<close> raises, the empty text among them. The store's operations
  do not raise.
\<close>

datatype stored_text = Json jsval | Text string

fun text_truthy :: "stored_text \<Rightarrow> bool" where
  "text_truthy (Json v) = True"
| "text_truthy (Text s) = (s \<noteq> [])"

fun JSON_parse :: "stored_text \<Rightarrow> jsval option" where
  "JSON_parse (Json v) = Some v"
| "JSON_parse (Text s) = None"

definition JSON_stringify :: "jsval \<Rightarrow> stored_text" where
  "JSON_stringify v = Json v"

record db_entry =
  de_value :: stored_text
  de_metadata :: jsval

text \<open>The state a run changes: the store, the invocations of the backend's
  single-transaction submission in order, the tasks handed to \<^verbatim>\<open>waitUntil\<close>, and the
  \<^verbatim>\<open>uploadFolder\<close> search parameter of the request URL.\<close>

record state =
  st_db :: "string \<Rightarrow> db_entry option"
  st_commits :: "commit_call list"
  st_waitUntil :: "(string \<times> jsval) list"
  st_uploadFolder_param :: "string option"

definition db_put :: "string \<Rightarrow> stored_text \<Rightarrow> jsval \<Rightarrow> state \<Rightarrow> state" where
  "db_put key v metadata s =
     s\<lparr> st_db := (st_db s)(key \<mapsto> \<lparr> de_value = v, de_metadata = metadata \<rparr>) \<rparr>"

definition db_delete :: "string \<Rightarrow> state \<Rightarrow> state" where
  "db_delete key s = s\<lparr> st_db := (st_db s)(key := None) \<rparr>"

text \<open>What a stage of the handler does: raise, return a response, or go on.\<close>

datatype 'a outcome = Throw api_error | Return http_response | Continue 'a

definition error_response :: "string \<Rightarrow> string \<Rightarrow> int \<Rightarrow> http_response" where
  "error_response c m st =
     jsonResponse (json_obj [(''success'', Bool False), (''code'', Str c), (''error'', Str m)]) st"

subsection \<open>Request validation (lines 234 to 288)\<close>

record batch_request =
  rq_channelName :: jsval
  rq_files :: "jsval list"
  rq_commitMessage :: jsval
  rq_requestId :: jsval
  rq_normalizedFolder :: string

definition validate_request :: "world \<Rightarrow> int \<Rightarrow> batch_request outcome" where
  "validate_request w maxFiles =
     (case userAuthCheck w of
        Inl e \<Rightarrow> Throw e
      | Inr authorized \<Rightarrow>
          if \<not> authorized then Return (error_response ''AUTH_ERROR'' ''Unauthorized'' 401)
          else
            (case request_json w of
               None \<Rightarrow>
                 Return (error_response ''INVALID_REQUEST''
                           ''Request body must be valid JSON'' 400)
             | Some parsed \<Rightarrow>
                 let body = js_or parsed (Obj []);
                     uploadFolder = with_default (get_prop body ''uploadFolder'') (Str []);
                     channelName = with_default (get_prop body ''channelName'') Null;
                     commitMessage = with_default (get_prop body ''commitMessage'') Null;
                     requestId = with_default (get_prop body ''requestId'') Null
                 in (case get_prop body ''files'' of
                       Arr files \<Rightarrow>
                         if files = [] then
                           Return (error_response ''INVALID_REQUEST''
                                     ''files must be a non-empty array'' 400)
                         else if int (length files) > maxFiles then
                           Return (error_response ''INVALID_REQUEST''
                                     (''Too many files, max allowed: '' @ show_int maxFiles) 400)
                         else if requestId \<noteq> Null \<and> requestId \<noteq> Undefined \<and>
                                 (case requestId of
                                    Str r \<Rightarrow> js_trim r = [] \<or> length r > 128
                                  | _ \<Rightarrow> True) then
                           Return (error_response ''INVALID_REQUEST''
                                     ''requestId must be a non-empty string up to 128 chars'' 400)
                         else
                           (case normalizeUploadFolder uploadFolder of
                              Inl e \<Rightarrow> Throw e
                            | Inr normalizedFolder \<Rightarrow>
                                Continue \<lparr> rq_channelName = channelName, rq_files = files,
                                           rq_commitMessage = commitMessage,
                                           rq_requestId = requestId,
                                           rq_normalizedFolder = normalizedFolder \<rparr>)
                     | _ \<Rightarrow>
                         Return (error_response ''INVALID_REQUEST''
                                   ''files must be a non-empty array'' 400))))"

subsection \<open>The idempotency ledger (lines 293 to 312)\<close>

definition idempotencyKey :: "jsval \<Rightarrow> string option" where
  "idempotencyKey requestId =
     (if truthy requestId then Some (''manage@hf_batch_request@'' @ js_String requestId)
      else None)"

text \<open>\<^verbatim>\<open>payload.idempotent = true\<close> as the response shows it: a property of an object is
  written out, a property set on an array is not.\<close>

fun mark_idempotent :: "jsval \<Rightarrow> jsval" where
  "mark_idempotent (Obj props) = Obj (set_field ''idempotent'' (Bool True) props)"
| "mark_idempotent v = v"

definition ledger_lookup :: "string option \<Rightarrow> state \<Rightarrow> http_response option \<times> state" where
  "ledger_lookup key s =
     (case key of
        None \<Rightarrow> (None, s)
      | Some k \<Rightarrow>
          (case st_db s k of
             None \<Rightarrow> (None, s)
           | Some entry \<Rightarrow>
               if \<not> text_truthy (de_value entry) then (None, s)
               else
                 let payload = (case JSON_parse (de_value entry) of
                                  Some p \<Rightarrow> p
                                | None \<Rightarrow> Null)
                 in if \<not> truthy payload \<or> \<not> typeof_object payload
                    then (None, db_delete k s)
                    else (Some (jsonResponse (mark_idempotent payload) 200), s)))"

subsection \<open>Channel resolution (lines 314 to 342)\<close>

definition resolve_channel :: "world \<Rightarrow> jsval \<Rightarrow> jsval outcome" where
  "resolve_channel w channelName =
     (case fetchUploadConfig w of
        Inl e \<Rightarrow> Throw e
      | Inr uploadConfig \<Rightarrow>
          let hfSettings = opt_get uploadConfig ''huggingface'' in
          if \<not> truthy hfSettings \<or>
             (case get_prop hfSettings ''channels'' of
                Arr channels \<Rightarrow> channels = []
              | _ \<Rightarrow> True) then
            Return (error_response ''CHANNEL_NOT_FOUND''
                      ''No HuggingFace channel configured'' 400)
          else
            (case selectHuggingFaceChannel (random_index w) hfSettings channelName of
               Inl e \<Rightarrow> Throw e
             | Inr hfChannel \<Rightarrow>
                 if \<not> truthy hfChannel then
                   Return (error_response ''CHANNEL_NOT_FOUND''
                             (if truthy channelName
                              then ''HuggingFace channel not found: '' @ js_String channelName
                              else ''No available HuggingFace channel'') 400)
                 else if \<not> truthy (get_prop hfChannel ''token'') \<or>
                         \<not> truthy (get_prop hfChannel ''repo'') then
                   Return (error_response ''CHANNEL_NOT_FOUND''
                             ''HuggingFace channel not properly configured'' 400)
                 else Continue hfChannel))"

subsection \<open>The budgeter: the loop over the files (lines 348 to 425)\<close>

text \<open>What the loop reads besides the files: the normalized folder, the two size limits,
  the uploader's address, the time, and the image sniffer.\<close>

record loop_env =
  le_normalizedFolder :: string
  le_maxTotalSize :: int
  le_maxSingleFileSize :: int
  le_uploadIp :: jsval
  le_uploadAddress :: jsval
  le_now :: int
  le_getImageDimensions :: "8 word list \<Rightarrow> string \<Rightarrow> api_error + jsval"

text \<open>\<^verbatim>\<open>(fileSizeBytes / 1024 / 1024).toFixed(2)\<close>: hundredths of a mebibyte, the nearest
  and at a tie the larger.\<close>

definition FileSize_text :: "nat \<Rightarrow> string" where
  "FileSize_text fileSizeBytes =
     (let n = (fileSizeBytes * 200 + 1048576) div 2097152
      in show_nat (n div 100) @ ''.'' @
         [''0123456789'' ! (n mod 100 div 10), ''0123456789'' ! (n mod 10)])"

definition fullId_of :: "string \<Rightarrow> string \<Rightarrow> string" where
  "fullId_of normalizedFolder fileName =
     (if normalizedFolder \<noteq> [] then normalizedFolder @ ''/'' @ fileName else fileName)"

definition sniff_dimensions :: "loop_env \<Rightarrow> 8 word list \<Rightarrow> string \<Rightarrow> jsval" where
  "sniff_dimensions env bytes mimeType =
     (if starts_with mimeType ''image/'' then
        (case le_getImageDimensions env (take 65536 bytes) mimeType of
           Inl e \<Rightarrow> Null
         | Inr d \<Rightarrow> d)
      else Null)"

definition draft_metadata ::
  "loop_env \<Rightarrow> string \<Rightarrow> string \<Rightarrow> nat \<Rightarrow> jsval \<Rightarrow> (string \<times> jsval) list" where
  "draft_metadata env fileName mimeType fileSizeBytes imageDimensions =
     (let metadata =
            [(''FileName'', Str fileName),
             (''FileType'', Str mimeType),
             (''FileSize'', Str (FileSize_text fileSizeBytes)),
             (''FileSizeBytes'', Num (int fileSizeBytes)),
             (''UploadIP'', le_uploadIp env),
             (''UploadAddress'', le_uploadAddress env),
             (''ListType'', Str ''None''),
             (''TimeStamp'', Num (le_now env)),
             (''Label'', Str ''None''),
             (''Directory'',
                Str (if le_normalizedFolder env = [] then []
                     else le_normalizedFolder env @ ''/'')),
             (''Tags'', Arr [])]
      in if truthy imageDimensions then
           set_field ''Height'' (get_prop imageDimensions ''height'')
             (set_field ''Width'' (get_prop imageDimensions ''width'') metadata)
         else metadata)"

text \<open>
  One turn of the loop on entry \<open>i\<close>, with the running total and the paths seen so
  far. It returns the estimated size and the prepared file, or the error raised.
\<close>

definition prepare_file ::
  "loop_env \<Rightarrow> nat \<Rightarrow> int \<Rightarrow> string list \<Rightarrow> jsval \<Rightarrow> api_error + (int \<times> prepared_file)" where
  "prepare_file env i totalEstimatedBytes fullIdSet entry =
     (let fileInput = js_or entry (Obj []) in
      case normalizeFileName (get_prop fileInput ''name'') of
        Inl e \<Rightarrow> Inl e
      | Inr fileName \<Rightarrow>
          let mimeType = normalizeMimeType (get_prop fileInput ''mimeType'') in
          (case normalizeContentBase64 (get_prop fileInput ''contentBase64'') of
             Inl e \<Rightarrow> Inl e
           | Inr base64Data \<Rightarrow>
               let estimatedSize = estimateBase64Size base64Data in
               if estimatedSize \<le> 0 then
                 Inl (createApiError ''INVALID_REQUEST''
                        (''files['' @ show_nat i @ ''] has empty content'') 400)
               else if estimatedSize > le_maxSingleFileSize env then
                 Inl (createApiError ''INVALID_REQUEST''
                        (''files['' @ show_nat i @ ''] exceeds max single file size limit ('' @
                         show_int (le_maxSingleFileSize env) @ '' bytes)'') 400)
               else if totalEstimatedBytes + estimatedSize > le_maxTotalSize env then
                 Inl (createApiError ''INVALID_REQUEST''
                        (''Total files size exceeds limit ('' @
                         show_int (le_maxTotalSize env) @ '' bytes)'') 400)
               else
                 let fullId = fullId_of (le_normalizedFolder env) fileName in
                 if starts_with fullId ''manage@'' then
                   Inl (createApiError ''INVALID_REQUEST''
                          (''files['' @ show_nat i @ ''] uses reserved path'') 400)
                 else if fullId \<in> set fullIdSet then
                   Inl (createApiError ''INVALID_REQUEST''
                          (''Duplicate target path in files: '' @ fullId) 400)
                 else
                   (case decodeBase64ToUint8Array base64Data of
                      Inl e \<Rightarrow> Inl e
                    | Inr bytes \<Rightarrow>
                        let fileBlob = new_Blob bytes mimeType;
                            imageDimensions = sniff_dimensions env bytes mimeType;
                            sha = get_prop fileInput ''sha256''
                        in Inr (estimatedSize,
                                \<lparr> pf_name = fileName,
                                  pf_fullId = fullId,
                                  pf_filePath = fullId,
                                  pf_mimeType = mimeType,
                                  pf_fileBlob = fileBlob,
                                  pf_contentBase64 = base64Data,
                                  pf_precomputedSha256 =
                                    (case sha of
                                       Str h \<Rightarrow> if js_trim h \<noteq> [] then Str (js_trim h) else Null
                                     | _ \<Rightarrow> Null),
                                  pf_metadata =
                                    draft_metadata env fileName mimeType
                                      (length (blob_bytes fileBlob)) imageDimensions \<rparr>))))"

text \<open>The loop from entry \<open>i\<close> on: the first error ends it.\<close>

fun prepare_loop ::
  "loop_env \<Rightarrow> nat \<Rightarrow> int \<Rightarrow> string list \<Rightarrow> jsval list \<Rightarrow> api_error + prepared_file list" where
  "prepare_loop env i totalEstimatedBytes fullIdSet [] = Inr []"
| "prepare_loop env i totalEstimatedBytes fullIdSet (entry # entries) =
     (case prepare_file env i totalEstimatedBytes fullIdSet entry of
        Inl e \<Rightarrow> Inl e
      | Inr (estimatedSize, prepared) \<Rightarrow>
          (case prepare_loop env (Suc i) (totalEstimatedBytes + estimatedSize)
                  (fullIdSet @ [pf_fullId prepared]) entries of
             Inl e \<Rightarrow> Inl e
           | Inr rest \<Rightarrow> Inr (prepared # rest)))"

definition prepare_files :: "loop_env \<Rightarrow> jsval list \<Rightarrow> api_error + prepared_file list" where
  "prepare_files env files = prepare_loop env 0 0 [] files"

subsection \<open>The commit and the records (lines 427 to 496)\<close>

definition to_upload :: "prepared_file \<Rightarrow> upload_file" where
  "to_upload file =
     \<lparr> uf_name = pf_name file, uf_file = pf_fileBlob file, uf_filePath = pf_filePath file,
       uf_precomputedSha256 = pf_precomputedSha256 file,
       uf_contentBase64 = pf_contentBase64 file \<rparr>"

definition commitSummary :: "jsval \<Rightarrow> nat \<Rightarrow> string" where
  "commitSummary commitMessage n =
     (case commitMessage of
        Str m \<Rightarrow>
          if js_trim m \<noteq> [] then js_trim m
          else ''Batch upload '' @ show_nat n @ '' files''
      | _ \<Rightarrow> ''Batch upload '' @ show_nat n @ '' files'')"

definition commit_call_of :: "jsval \<Rightarrow> jsval \<Rightarrow> prepared_file list \<Rightarrow> commit_call" where
  "commit_call_of hfChannel commitMessage preparedFiles =
     \<lparr> cc_token = get_prop hfChannel ''token'',
       cc_repo = get_prop hfChannel ''repo'',
       cc_isPrivate = js_or (get_prop hfChannel ''isPrivate'') (Bool False),
       cc_files = map to_upload preparedFiles,
       cc_summary = commitSummary commitMessage (length preparedFiles) \<rparr>"

definition response_entry :: "prepared_file \<Rightarrow> jsval" where
  "response_entry file =
     json_obj [(''name'', Str (pf_name file)),
               (''src'', Str (''/file/'' @ encodeFileIdForUrl (pf_fullId file))),
               (''fullId'', Str (pf_fullId file))]"

text \<open>One turn of the loop over the prepared files: the index record, the moderation
  label when moderation is on (a failure there is swallowed), the deferred task.\<close>

definition record_file :: "world \<Rightarrow> jsval \<Rightarrow> bool \<Rightarrow> prepared_file \<Rightarrow> state \<Rightarrow> state" where
  "record_file w hfChannel moderateEnabled file s =
     (let metadata =
            set_field ''HfFileUrl'' (getFileURL w (pf_filePath file))
              (set_field ''HfIsPrivate'' (js_or (get_prop hfChannel ''isPrivate'') (Bool False))
                (set_field ''HfToken'' (get_prop hfChannel ''token'')
                  (set_field ''HfFilePath'' (Str (pf_filePath file))
                    (set_field ''HfRepo'' (get_prop hfChannel ''repo'')
                      (set_field ''ChannelName''
                         (js_or (get_prop hfChannel ''name'') (Str ''HuggingFace_env''))
                        (set_field ''Channel'' (Str ''HuggingFace'') (pf_metadata file)))))));
          s1 = db_put (pf_fullId file) (Text []) (Obj metadata) s;
          moderated =
            (if moderateEnabled then
               (case moderateContent w
                       (if \<not> truthy (get_prop hfChannel ''isPrivate'')
                        then get_prop (Obj metadata) ''HfFileUrl''
                        else Str (''https://'' @ url_hostname w @ ''/file/'' @
                                  encodeFileIdForUrl (pf_fullId file))) of
                  Inl e \<Rightarrow> None
                | Inr label \<Rightarrow> Some (set_field ''Label'' label metadata))
             else None);
          metadata' = (case moderated of Some m \<Rightarrow> m | None \<Rightarrow> metadata);
          s2 = (case moderated of
                  Some m \<Rightarrow> db_put (pf_fullId file) (Text []) (Obj m) s1
                | None \<Rightarrow> s1)
      in s2\<lparr> st_waitUntil := st_waitUntil s2 @ [(pf_fullId file, Obj metadata')] \<rparr>)"

fun record_files :: "world \<Rightarrow> jsval \<Rightarrow> bool \<Rightarrow> prepared_file list \<Rightarrow> state \<Rightarrow> state" where
  "record_files w hfChannel moderateEnabled [] s = s"
| "record_files w hfChannel moderateEnabled (file # files) s =
     record_files w hfChannel moderateEnabled files
       (record_file w hfChannel moderateEnabled file s)"

definition success_payload ::
  "batch_request \<Rightarrow> jsval \<Rightarrow> jsval \<Rightarrow> prepared_file list \<Rightarrow> jsval" where
  "success_payload rq hfChannel uploadResult preparedFiles =
     json_obj [(''success'', Bool True),
               (''requestId'', js_or (rq_requestId rq) Null),
               (''commitId'', extractCommitId (get_prop uploadResult ''commitResult'')),
               (''channelName'', js_or (get_prop hfChannel ''name'') Null),
               (''repo'', get_prop hfChannel ''repo''),
               (''files'', Arr (map response_entry preparedFiles))]"

definition commit_and_record ::
  "world \<Rightarrow> batch_request \<Rightarrow> jsval \<Rightarrow> prepared_file list \<Rightarrow> state \<Rightarrow>
     (api_error + http_response) \<times> state" where
  "commit_and_record w rq hfChannel preparedFiles s =
     (let call = commit_call_of hfChannel (rq_commitMessage rq) preparedFiles;
          s1 = s\<lparr> st_commits := st_commits s @ [call] \<rparr>
      in case uploadFilesInSingleCommit w call of
           Inl e \<Rightarrow> (Inl e, s1)
         | Inr uploadResult \<Rightarrow>
             (case fetchSecurityConfig w of
                Inl e \<Rightarrow> (Inl e, s1)
              | Inr securityConfig \<Rightarrow>
                  let moderateEnabled =
                        (opt_get (opt_get (opt_get securityConfig ''upload'') ''moderate'')
                           ''enabled'' = Bool True);
                      s2 = record_files w hfChannel moderateEnabled preparedFiles s1
                  in if uploadResult = Null \<or> uploadResult = Undefined then (Inl TypeError, s2)
                     else
                       let payload = success_payload rq hfChannel uploadResult preparedFiles
                       in (Inr (jsonResponse payload 200),
                           (case idempotencyKey (rq_requestId rq) of
                              Some k \<Rightarrow> db_put k (JSON_stringify payload) Undefined s2
                            | None \<Rightarrow> s2))))"

subsection \<open>The handler\<close>

text \<open>The three limits, read from the environment.\<close>

definition maxFiles :: "world \<Rightarrow> int" where
  "maxFiles w = parseLimit (env_HF_BATCH_MAX_FILES w) DEFAULT_MAX_FILES"

definition maxTotalSize :: "world \<Rightarrow> int" where
  "maxTotalSize w = parseLimit (env_HF_BATCH_MAX_TOTAL_SIZE w) DEFAULT_MAX_TOTAL_SIZE"

definition maxSingleFileSize :: "world \<Rightarrow> int" where
  "maxSingleFileSize w =
     parseLimit (env_HF_BATCH_MAX_SINGLE_FILE_SIZE w) DEFAULT_MAX_SINGLE_FILE_SIZE"

text \<open>\<^verbatim>\<open>url.searchParams.set('uploadFolder', normalizedFolder)\<close>, for a folder that is not
  empty.\<close>

definition set_uploadFolder_param :: "batch_request \<Rightarrow> state \<Rightarrow> state" where
  "set_uploadFolder_param rq s =
     (if rq_normalizedFolder rq \<noteq> []
      then s\<lparr> st_uploadFolder_param := Some (rq_normalizedFolder rq) \<rparr>
      else s)"

text \<open>What the loop over the files reads in a run.\<close>

definition budgeter_env :: "world \<Rightarrow> batch_request \<Rightarrow> jsval \<Rightarrow> loop_env" where
  "budgeter_env w rq uploadAddress =
     \<lparr> le_normalizedFolder = rq_normalizedFolder rq,
       le_maxTotalSize = maxTotalSize w,
       le_maxSingleFileSize = maxSingleFileSize w,
       le_uploadIp = getUploadIp w,
       le_uploadAddress = uploadAddress,
       le_now = Date_now w,
       le_getImageDimensions = getImageDimensions w \<rparr>"

text \<open>The body of the \<^verbatim>\<open>try\<close> block: the response returned or the error raised, and the
  state the run leaves.\<close>

definition try_block :: "world \<Rightarrow> state \<Rightarrow> (api_error + http_response) \<times> state" where
  "try_block w s =
     (case validate_request w (maxFiles w) of
        Throw e \<Rightarrow> (Inl e, s)
      | Return r \<Rightarrow> (Inr r, s)
      | Continue rq \<Rightarrow>
          (case ledger_lookup (idempotencyKey (rq_requestId rq)) (set_uploadFolder_param rq s) of
             (Some replay, s2) \<Rightarrow> (Inr replay, s2)
           | (None, s2) \<Rightarrow>
               (case resolve_channel w (rq_channelName rq) of
                  Throw e \<Rightarrow> (Inl e, s2)
                | Return r \<Rightarrow> (Inr r, s2)
                | Continue hfChannel \<Rightarrow>
                    (case getIPAddress w of
                       Inl e \<Rightarrow> (Inl e, s2)
                     | Inr uploadAddress \<Rightarrow>
                         (case prepare_files (budgeter_env w rq uploadAddress) (rq_files rq) of
                            Inl e \<Rightarrow> (Inl e, s2)
                          | Inr preparedFiles \<Rightarrow>
                              commit_and_record w rq hfChannel preparedFiles s2)))))"

text \<open>The handler: an error raised in the \<^verbatim>\<open>try\<close> block is classified by
  \<^verbatim>\<open>toErrorResponse\<close>.\<close>

definition onRequestPost :: "world \<Rightarrow> state \<Rightarrow> http_response \<times> state" where
  "onRequestPost w s =
     (case try_block w s of
        (Inl error, s') \<Rightarrow> (toErrorResponse error ''INTERNAL_ERROR'', s')
      | (Inr response, s') \<Rightarrow> (response, s'))"

definition onRequestOptions :: http_response where
  "onRequestOptions = jsonResponse (json_obj [(''success'', Bool True)]) 200"

section \<open>The claims' vocabulary\<close>

text \<open>
  The notions the claims are stated with, each defined from the handler's own
  functions: what one entry of the batch normalizes to, when a batch is valid, and how
  far a run gets.
\<close>

definition entry_name :: "jsval \<Rightarrow> api_error + string" where
  "entry_name entry = normalizeFileName (get_prop (js_or entry (Obj [])) ''name'')"

definition entry_content :: "jsval \<Rightarrow> api_error + string" where
  "entry_content entry =
     normalizeContentBase64 (get_prop (js_or entry (Obj [])) ''contentBase64'')"

text \<open>The estimated size of an entry; 0 when its content does not normalize.\<close>

definition entry_size :: "jsval \<Rightarrow> int" where
  "entry_size entry =
     (case entry_content entry of Inr base64Data \<Rightarrow> estimateBase64Size base64Data | Inl e \<Rightarrow> 0)"

text \<open>The full target path of an entry; empty when its name does not normalize.\<close>

definition entry_fullId :: "string \<Rightarrow> jsval \<Rightarrow> string" where
  "entry_fullId normalizedFolder entry =
     (case entry_name entry of Inr n \<Rightarrow> fullId_of normalizedFolder n | Inl e \<Rightarrow> [])"

text \<open>An entry passes normalization: its name and content normalize and the content
  decodes.\<close>

definition entry_normalizes :: "jsval \<Rightarrow> bool" where
  "entry_normalizes entry \<longleftrightarrow>
     (case entry_name entry of Inr n \<Rightarrow> True | Inl e \<Rightarrow> False) \<and>
     (case entry_content entry of Inr b \<Rightarrow> atob b \<noteq> None | Inl e \<Rightarrow> False)"

text \<open>The batch's entries are valid one by one: each passes normalization with an
  estimated size in \<open>(0, maxSingleFileSize]\<close>, and the target paths are pairwise
  distinct and outside the reserved prefix.\<close>

definition entries_valid :: "loop_env \<Rightarrow> jsval list \<Rightarrow> bool" where
  "entries_valid env files \<longleftrightarrow>
     list_all (\<lambda>entry. entry_normalizes entry \<and> 0 < entry_size entry \<and>
                        entry_size entry \<le> le_maxSingleFileSize env) files \<and>
     distinct (map (entry_fullId (le_normalizedFolder env)) files) \<and>
     list_all (\<lambda>entry. \<not> starts_with (entry_fullId (le_normalizedFolder env) entry) ''manage@'')
       files"

text \<open>A valid batch: valid entries whose estimated sizes sum to at most
  \<open>maxTotalSize\<close>.\<close>

definition batch_valid :: "loop_env \<Rightarrow> jsval list \<Rightarrow> bool" where
  "batch_valid env files \<longleftrightarrow>
     entries_valid env files \<and> sum_list (map entry_size files) \<le> le_maxTotalSize env"

text \<open>The error of the running total exceeding the limit.\<close>

definition total_size_error :: "loop_env \<Rightarrow> api_error" where
  "total_size_error env =
     createApiError ''INVALID_REQUEST''
       (''Total files size exceeds limit ('' @ show_int (le_maxTotalSize env) @ '' bytes)'') 400"

text \<open>The request of a run that passes validation (lines 234 to 288).\<close>

definition validated :: "world \<Rightarrow> batch_request option" where
  "validated w =
     (case validate_request w (maxFiles w) of Continue rq \<Rightarrow> Some rq | _ \<Rightarrow> None)"

text \<open>The run is answered from the idempotency ledger.\<close>

definition replayed :: "world \<Rightarrow> state \<Rightarrow> bool" where
  "replayed w s \<longleftrightarrow>
     (case validated w of
        None \<Rightarrow> False
      | Some rq \<Rightarrow>
          fst (ledger_lookup (idempotencyKey (rq_requestId rq)) (set_uploadFolder_param rq s))
            \<noteq> None)"

text \<open>The run reaches the loop over the files: the request passes validation, is not
  answered from the ledger, a usable channel is resolved and the address lookup returns.
  The result is the environment of the loop.\<close>

definition budgeter_input :: "world \<Rightarrow> state \<Rightarrow> (loop_env \<times> jsval list) option" where
  "budgeter_input w s =
     (case validated w of
        None \<Rightarrow> None
      | Some rq \<Rightarrow>
          if replayed w s then None
          else (case resolve_channel w (rq_channelName rq) of
                  Continue hfChannel \<Rightarrow>
                    (case getIPAddress w of
                       Inr uploadAddress \<Rightarrow> Some (budgeter_env w rq uploadAddress, rq_files rq)
                     | Inl e \<Rightarrow> None)
                | _ \<Rightarrow> None))"

text \<open>The run reaches the loop over the files with a valid batch.\<close>

definition reaches_commit :: "world \<Rightarrow> state \<Rightarrow> bool" where
  "reaches_commit w s \<longleftrightarrow>
     (case budgeter_input w s of
        Some (env, files) \<Rightarrow> batch_valid env files
      | None \<Rightarrow> False)"

text \<open>The run reaches the backend's submission: the request, the channel, the prepared
  files and the state with which the handler goes on after the loop over the files.\<close>

definition commit_input ::
  "world \<Rightarrow> state \<Rightarrow> (batch_request \<times> jsval \<times> prepared_file list \<times> state) option" where
  "commit_input w s =
     (case validated w of
        None \<Rightarrow> None
      | Some rq \<Rightarrow>
          (case ledger_lookup (idempotencyKey (rq_requestId rq)) (set_uploadFolder_param rq s) of
             (Some replay, s2) \<Rightarrow> None
           | (None, s2) \<Rightarrow>
               (case resolve_channel w (rq_channelName rq) of
                  Continue hfChannel \<Rightarrow>
                    (case getIPAddress w of
                       Inr uploadAddress \<Rightarrow>
                         (case prepare_files (budgeter_env w rq uploadAddress) (rq_files rq) of
                            Inr preparedFiles \<Rightarrow> Some (rq, hfChannel, preparedFiles, s2)
                          | Inl e \<Rightarrow> None)
                     | Inl e \<Rightarrow> None)
                | _ \<Rightarrow> None)))"

text \<open>What \<^verbatim>\<open>uploadFilesInSingleCommit\<close> answers in the run: nothing when it is not
  invoked, the error it raises, or the result it returns.\<close>

definition submission :: "world \<Rightarrow> state \<Rightarrow> (api_error + jsval) option" where
  "submission w s =
     (case commit_input w s of
        None \<Rightarrow> None
      | Some (rq, hfChannel, preparedFiles, s2) \<Rightarrow>
          Some (uploadFilesInSingleCommit w
                  (commit_call_of hfChannel (rq_commitMessage rq) preparedFiles)))"

text \<open>Between two states no entry of the store was written: every key holds what it
  held, or nothing.\<close>

definition nothing_written :: "state \<Rightarrow> state \<Rightarrow> bool" where
  "nothing_written s s' \<longleftrightarrow> (\<forall>k. st_db s' k = st_db s k \<or> st_db s' k = None)"

text \<open>The entry of the success response for one entry of the batch.\<close>

definition listing :: "string \<Rightarrow> jsval \<Rightarrow> jsval" where
  "listing normalizedFolder entry =
     Obj [(''name'', Str (case entry_name entry of Inr n \<Rightarrow> n | Inl e \<Rightarrow> [])),
          (''src'', Str (''/file/'' @ encodeFileIdForUrl (entry_fullId normalizedFolder entry))),
          (''fullId'', Str (entry_fullId normalizedFolder entry))]"

text \<open>A valid batch as claim C1 lists it: at most \<open>maxFiles\<close> entries, each passing
  normalization with an estimated size in \<open>(0, maxSingleFileSize]\<close>, and a total of at
  most \<open>maxTotalSize\<close>.\<close>

definition listed_valid :: "world \<Rightarrow> jsval list \<Rightarrow> bool" where
  "listed_valid w files \<longleftrightarrow>
     int (length files) \<le> maxFiles w \<and>
     list_all (\<lambda>entry. entry_normalizes entry \<and> 0 < entry_size entry \<and>
                        entry_size entry \<le> maxSingleFileSize w) files \<and>
     sum_list (map entry_size files) \<le> maxTotalSize w"

section \<open>Sample inputs\<close>

text \<open>A commit-stage error as a rate-limited backend raises it, and one raised when the
  transaction submission fails for another reason.\<close>

definition rate_limited_commit_error :: api_error where
  "rate_limited_commit_error =
     \<lparr> err_message = Some ''Too Many Requests'', err_code = None, err_status = Some 429,
       err_stage = Some ''commit'', err_retryAfterSeconds = Some 60,
       err_uploadedFiles =
         Some [[(''name'', Str ''a.jpg''), (''filePath'', Str ''demo/a.jpg'')]] \<rparr>"

definition failed_commit_error :: api_error where
  "failed_commit_error =
     \<lparr> err_message = Some ''commit failed'', err_code = None, err_status = Some 500,
       err_stage = Some ''commit'', err_retryAfterSeconds = None,
       err_uploadedFiles =
         Some [[(''name'', Str ''a.jpg''), (''filePath'', Str ''demo/a.jpg''),
                (''oid'', Str ''0f'')]] \<rparr>"

text \<open>Commit-stage errors that an earlier guard classifies: one with status 403, and one
  with code INVALID_REQUEST and status 429.\<close>

definition unauthorized_commit_error :: api_error where
  "unauthorized_commit_error =
     \<lparr> err_message = Some ''Forbidden'', err_code = None, err_status = Some 403,
       err_stage = Some ''commit'', err_retryAfterSeconds = None,
       err_uploadedFiles =
         Some [[(''name'', Str ''a.jpg''), (''filePath'', Str ''demo/a.jpg'')]] \<rparr>"

definition invalid_commit_error :: api_error where
  "invalid_commit_error =
     \<lparr> err_message = Some ''bad path'', err_code = Some ''INVALID_REQUEST'',
       err_status = Some 429, err_stage = Some ''commit'', err_retryAfterSeconds = None,
       err_uploadedFiles =
         Some [[(''name'', Str ''a.jpg''), (''filePath'', Str ''demo/a.jpg'')]] \<rparr>"

text \<open>A loop environment with small limits, 4 bytes in total and 3 bytes per file, and
  entries of 3, 1, 2, 0 and 4 bytes.\<close>

definition small_env :: loop_env where
  "small_env =
     \<lparr> le_normalizedFolder = ''demo'', le_maxTotalSize = 4, le_maxSingleFileSize = 3,
       le_uploadIp = Str ''203.0.113.7'', le_uploadAddress = Str ''unknown'', le_now = 1000,
       le_getImageDimensions = (\<lambda>bytes mimeType. Inr Null) \<rparr>"

definition entry_3_bytes :: jsval where
  "entry_3_bytes = Obj [(''name'', Str ''a.jpg''), (''mimeType'', Str ''image/jpeg''),
                        (''contentBase64'', Str ''QUJD'')]"

definition entry_1_byte :: jsval where
  "entry_1_byte = Obj [(''name'', Str ''info.txt''), (''contentBase64'', Str ''QQ=='')]"

definition entry_2_bytes :: jsval where
  "entry_2_bytes = Obj [(''name'', Str ''b.bin''), (''contentBase64'', Str ''QUI='')]"

definition entry_0_bytes :: jsval where
  "entry_0_bytes = Obj [(''name'', Str ''empty.bin''), (''contentBase64'', Str ''='')]"

definition entry_4_bytes :: jsval where
  "entry_4_bytes = Obj [(''name'', Str ''big.bin''), (''contentBase64'', Str ''QUJDRA=='')]"

text \<open>A run of the handler: an authorised request for folder \<^verbatim>\<open>demo\<close> with two files and the
  request identifier \<^verbatim>\<open>r1\<close>, one configured public channel, no moderation, and a backend
  that answers with a commit identifier.\<close>

definition demo_files :: "jsval list" where
  "demo_files = [entry_3_bytes, entry_1_byte]"

definition demo_world :: world where
  "demo_world =
     \<lparr> env_HF_BATCH_MAX_FILES = None,
       env_HF_BATCH_MAX_TOTAL_SIZE = None,
       env_HF_BATCH_MAX_SINGLE_FILE_SIZE = None,
       userAuthCheck = Inr True,
       request_json =
         Some (Obj [(''uploadFolder'', Str ''demo''), (''files'', Arr demo_files),
                    (''requestId'', Str ''r1'')]),
       fetchUploadConfig =
         Inr (Obj [(''huggingface'',
                    Obj [(''channels'',
                          Arr [Obj [(''name'', Str ''HF_img''), (''token'', Str ''hf_token''),
                                    (''repo'', Str ''owner/repo'')]])])]),
       random_index = 0,
       getUploadIp = Str ''203.0.113.7'',
       getIPAddress = Inr (Str ''unknown''),
       Date_now = 1000,
       getImageDimensions = (\<lambda>bytes mimeType. Inr Null),
       uploadFilesInSingleCommit =
         (\<lambda>call. Inr (Obj [(''commitResult'', Obj [(''commit'', Obj [(''oid'', Str ''c0ffee'')])])])),
       getFileURL = (\<lambda>path. Str (''https://huggingface.co/datasets/owner/repo/resolve/main/'' @ path)),
       fetchSecurityConfig = Inr (Obj []),
       moderateContent = (\<lambda>url. Inr (Str ''None'')),
       url_hostname = ''img.example'' \<rparr>"

definition empty_state :: state where
  "empty_state =
     \<lparr> st_db = Map.empty, st_commits = [], st_waitUntil = [], st_uploadFolder_param = None \<rparr>"

text \<open>The ledger after an earlier batch of one file completed under the request
  identifier \<^verbatim>\<open>r1\<close>.\<close>

definition stored_props :: "(string \<times> jsval) list" where
  "stored_props =
     [(''success'', Bool True), (''requestId'', Str ''r1''), (''commitId'', Str ''0ld''),
      (''channelName'', Str ''HF_img''), (''repo'', Str ''owner/repo''),
      (''files'',
         Arr [Obj [(''name'', Str ''old.png''), (''src'', Str ''/file/demo/old.png''),
                   (''fullId'', Str ''demo/old.png'')]])]"

definition replay_state :: state where
  "replay_state =
     empty_state\<lparr> st_db :=
       [''manage@hf_batch_request@r1'' \<mapsto>
          \<lparr> de_value = Json (Obj stored_props), de_metadata = Undefined \<rparr>] \<rparr>"

text \<open>The ledger holding an array under that key.\<close>

definition array_state :: state where
  "array_state =
     empty_state\<lparr> st_db :=
       [''manage@hf_batch_request@r1'' \<mapsto>
          \<lparr> de_value = Json (Arr [Str ''x'']), de_metadata = Undefined \<rparr>] \<rparr>"

text \<open>The same request with the first file given twice, and the same again where no
  channel is configured.\<close>

definition duplicate_world :: world where
  "duplicate_world =
     demo_world\<lparr> request_json :=
       Some (Obj [(''uploadFolder'', Str ''demo''),
                  (''files'', Arr [entry_3_bytes, entry_3_bytes])]) \<rparr>"

definition duplicate_world_no_channel :: world where
  "duplicate_world_no_channel =
     duplicate_world\<lparr> fetchUploadConfig := Inr (Obj [(''huggingface'', Obj [(''channels'', Arr [])])]) \<rparr>"




section \<open>Base64: the size estimate and the decoder\<close>

lemma b64_all_values_length: "b64_all_values d = Some vs \<Longrightarrow> length vs = length d"
  by (induction d arbitrary: vs) (auto split: option.splits)

lemma b64_value_pad: "b64_value CHR ''='' = None"
  by (simp add: b64_value_def b64_alphabet_def)

lemma b64_all_values_no_pad: "b64_all_values d = Some vs \<Longrightarrow> CHR ''='' \<notin> set d"
  by (induction d arbitrary: vs) (auto simp: b64_value_pad split: option.splits)

lemma b64_bytes_length:
  "length (b64_bytes vs) =
     3 * (length vs div 4) +
     (if length vs mod 4 = 2 then 1 else if length vs mod 4 = 3 then 2 else 0)"
proof (induction vs rule: b64_bytes.induct)
  case (1 a b c d rest)
  have "length (a # b # c # d # rest) div 4 = Suc (length rest div 4)"
    and "length (a # b # c # d # rest) mod 4 = length rest mod 4"
    by simp_all
  with 1 show ?case by (simp add: Let_def)
qed (simp_all add: Let_def)

lemma ascii_ws_is_js_space: "is_ascii_ws c \<Longrightarrow> is_js_space c"
  by (auto simp: is_ascii_ws_def is_js_space_def)

lemma filter_no_ascii_ws:
  "\<forall>c\<in>set s. \<not> is_ascii_ws c \<Longrightarrow> filter (\<lambda>c. \<not> is_ascii_ws c) s = s"
  by (induction s) auto

lemma ends_with_in_set: "ends_with s (c # p) \<Longrightarrow> c \<in> set s"
proof -
  assume "ends_with s (c # p)"
  then have "drop (length s - length (c # p)) s = c # p" by (simp add: ends_with_def)
  then have "c \<in> set (drop (length s - length (c # p)) s)" by simp
  then show ?thesis by (rule in_set_dropD)
qed

lemma mod4_cases: "(r::nat) < 4 \<Longrightarrow> r = 0 \<or> r = 1 \<or> r = 2 \<or> r = 3"
  by arith

lemma three_quarters_split:
  "(r::nat) < 4 \<Longrightarrow> r \<noteq> 1 \<Longrightarrow>
   (4 * q + r) * 3 div 4 = 3 * q + (if r = 2 then 1 else if r = 3 then 2 else 0)"
  using mod4_cases [of r] by auto

lemma decoded_length_unpadded:
  assumes "(n::nat) mod 4 \<noteq> 1"
  shows "3 * (n div 4) + (if n mod 4 = 2 then 1 else if n mod 4 = 3 then 2 else 0) = n * 3 div 4"
proof -
  have "n = 4 * (n div 4) + n mod 4" by simp
  then have "n * 3 div 4 = (4 * (n div 4) + n mod 4) * 3 div 4" by simp
  also have "\<dots> = 3 * (n div 4) + (if n mod 4 = 2 then 1 else if n mod 4 = 3 then 2 else 0)"
    using assms by (intro three_quarters_split) simp_all
  finally show ?thesis by simp
qed

lemma decoded_length_pad2:
  assumes "n = 4 * Suc j"
  shows "int (3 * ((n - 2) div 4) +
              (if (n - 2) mod 4 = 2 then 1 else if (n - 2) mod 4 = 3 then 2 else 0))
         = max 0 (int (n * 3 div 4) - 2)"
proof -
  have 0: "n - 2 = 4 * j + 2" using assms by simp
  have "(4 * j + 2) mod 4 = 2 mod (4::nat)" by (rule mod_mult_self4)
  then have 1: "(4 * j + 2) div 4 = j" "(4 * j + 2) mod 4 = 2" by simp_all
  have 3: "n * 3 div 4 = 3 * j + 3" using assms by simp
  show ?thesis unfolding 0 1 3 by simp
qed

lemma decoded_length_pad1:
  assumes "n = 4 * Suc j"
  shows "int (3 * ((n - 1) div 4) +
              (if (n - 1) mod 4 = 2 then 1 else if (n - 1) mod 4 = 3 then 2 else 0))
         = max 0 (int (n * 3 div 4) - 1)"
proof -
  have 0: "n - 1 = 4 * j + 3" using assms by simp
  have "(4 * j + 3) mod 4 = 3 mod (4::nat)" by (rule mod_mult_self4)
  then have 1: "(4 * j + 3) div 4 = j" "(4 * j + 3) mod 4 = 3" by simp_all
  have 3: "n * 3 div 4 = 3 * j + 3" using assms by simp
  show ?thesis unfolding 0 1 3 by simp
qed

lemma multiple_of_4: "(n::nat) mod 4 = 0 \<Longrightarrow> 0 < n \<Longrightarrow> \<exists>j. n = 4 * Suc j"
proof -
  assume a: "n mod 4 = 0" "0 < n"
  then obtain k where k: "n = 4 * k" by auto
  with a obtain j where "k = Suc j" by (cases k) auto
  with k show ?thesis by blast
qed

lemma estimate_pad2:
  "ends_with s ''=='' \<Longrightarrow> estimateBase64Size s = max 0 (int (length s * 3 div 4) - 2)"
  by (auto simp: estimateBase64Size_def Let_def ends_with_def)

lemma estimate_pad1:
  "\<not> ends_with s ''=='' \<Longrightarrow> ends_with s ''='' \<Longrightarrow>
   estimateBase64Size s = max 0 (int (length s * 3 div 4) - 1)"
  by (auto simp: estimateBase64Size_def Let_def ends_with_def)

lemma estimate_unpadded:
  "\<not> ends_with s ''=='' \<Longrightarrow> \<not> ends_with s ''='' \<Longrightarrow>
   estimateBase64Size s = int (length s * 3 div 4)"
  by (simp add: estimateBase64Size_def Let_def)

lemma atob_length:
  assumes ws: "\<forall>c\<in>set s. \<not> is_ascii_ws c" and ok: "atob s = Some bin"
  shows "int (length bin) = estimateBase64Size s"
proof -
  let ?d = "strip_padding s"
  let ?L = "\<lambda>m::nat. 3 * (m div 4) + (if m mod 4 = 2 then 1 else if m mod 4 = 3 then 2 else 0)"
  from ok ws obtain vs where vs: "b64_all_values ?d = Some vs"
    and bin: "bin = map char_of (b64_bytes vs)" and m1: "length ?d mod 4 \<noteq> 1"
    by (auto simp: atob_def Let_def filter_no_ascii_ws split: if_splits)
  have len: "length bin = ?L (length ?d)"
    using bin b64_bytes_length [of vs] b64_all_values_length [OF vs] by simp
  have nopad: "CHR ''='' \<notin> set ?d" using b64_all_values_no_pad [OF vs] .
  show ?thesis
  proof (cases "length s mod 4 = 0")
    case False
    then have d: "?d = s" by (simp add: strip_padding_def)
    with nopad have "\<not> ends_with s ''==''" "\<not> ends_with s ''=''"
      using ends_with_in_set by fastforce+
    then have est: "estimateBase64Size s = int (length s * 3 div 4)" by (rule estimate_unpadded)
    have lb: "length bin = ?L (length s)" using len unfolding d .
    have "length s mod 4 \<noteq> 1" using m1 unfolding d .
    then have "?L (length s) = length s * 3 div 4" by (rule decoded_length_unpadded)
    with lb have "length bin = length s * 3 div 4" by (simp only:)
    with est show ?thesis by (simp only:)
  next
    case True
    show ?thesis
    proof (cases "ends_with s ''==''")
      case e2: True
      then have d: "?d = take (length s - 2) s" using True by (simp add: strip_padding_def)
      from e2 have pos: "0 < length s" by (auto simp: ends_with_def)
      from multiple_of_4 [OF True pos] obtain j where j: "length s = 4 * Suc j" ..
      have "length ?d = length s - 2" using d by simp
      with len have "int (length bin) = int (?L (length s - 2))" by (simp only:)
      also have "\<dots> = max 0 (int (length s * 3 div 4) - 2)" using j by (rule decoded_length_pad2)
      finally show ?thesis using estimate_pad2 [OF e2] by (simp only:)
    next
      case ne2: False
      show ?thesis
      proof (cases "ends_with s ''=''")
        case e1: True
        then have d: "?d = take (length s - 1) s" using True ne2 by (simp add: strip_padding_def)
        from e1 have pos: "0 < length s" by (auto simp: ends_with_def)
        from multiple_of_4 [OF True pos] obtain j where j: "length s = 4 * Suc j" ..
        have "length ?d = length s - 1" using d by simp
        with len have "int (length bin) = int (?L (length s - 1))" by (simp only:)
        also have "\<dots> = max 0 (int (length s * 3 div 4) - 1)" using j by (rule decoded_length_pad1)
        finally show ?thesis using estimate_pad1 [OF ne2 e1] by (simp only:)
      next
        case ne1: False
        then have d: "?d = s" using True ne2 by (simp add: strip_padding_def)
        have lb: "length bin = ?L (length s)" using len unfolding d .
        have "length s mod 4 \<noteq> 1" using True by simp
        then have "?L (length s) = length s * 3 div 4" by (rule decoded_length_unpadded)
        with lb have "length bin = length s * 3 div 4" by (simp only:)
        with estimate_unpadded [OF ne2 ne1] show ?thesis by (simp only:)
      qed
    qed
  qed
qed

text \<open>
  Claim C7. For every base64 payload without white space that \<^verbatim>\<open>atob\<close> decodes,
  \<^verbatim>\<open>decodeBase64ToUint8Array\<close> returns bytes whose count is exactly
  \<^verbatim>\<open>estimateBase64Size\<close> of the payload; for a payload that \<^verbatim>\<open>atob\<close> rejects it raises
  INVALID_REQUEST with status 400 and returns nothing.
\<close>

theorem estimate_is_decoded_size:
  "(\<forall>binary. atob s = Some binary \<and> (\<forall>c\<in>set s. \<not> is_js_space c) \<longrightarrow>
      (\<exists>bytes. decodeBase64ToUint8Array s = Inr bytes \<and>
               int (length bytes) = estimateBase64Size s)) \<and>
   (atob s = None \<longrightarrow>
      decodeBase64ToUint8Array s =
        Inl (createApiError ''INVALID_REQUEST'' ''Invalid base64 content'' 400))"
proof (intro conjI allI impI)
  fix binary
  assume a: "atob s = Some binary \<and> (\<forall>c\<in>set s. \<not> is_js_space c)"
  then have "\<forall>c\<in>set s. \<not> is_ascii_ws c" using ascii_ws_is_js_space by blast
  with a have "int (length binary) = estimateBase64Size s" by (intro atob_length) simp_all
  with a show "\<exists>bytes. decodeBase64ToUint8Array s = Inr bytes \<and>
                       int (length bytes) = estimateBase64Size s"
    by (simp add: decodeBase64ToUint8Array_def)
next
  assume "atob s = None"
  then show "decodeBase64ToUint8Array s =
               Inl (createApiError ''INVALID_REQUEST'' ''Invalid base64 content'' 400)"
    by (simp add: decodeBase64ToUint8Array_def)
qed

theorem estimate_is_decoded_size_witness:
  "atob ''QUI='' = Some ''AB'' \<and> \<not> list_ex is_js_space ''QUI='' \<and>
   (\<exists>bytes. decodeBase64ToUint8Array ''QUI='' = Inr bytes \<and>
            int (length bytes) = estimateBase64Size ''QUI='') \<and>
   atob ''QQ='' = None \<and>
   decodeBase64ToUint8Array ''QQ='' =
     Inl (createApiError ''INVALID_REQUEST'' ''Invalid base64 content'' 400)"
proof -
  have 1: "atob ''QUI='' = Some ''AB''" by code_simp
  have 2: "\<forall>c\<in>set ''QUI=''. \<not> is_js_space c" by (simp add: is_js_space_def)
  have nows: "\<not> list_ex is_js_space ''QUI=''" by code_simp
  have 3: "atob ''QQ='' = None" by code_simp
  from estimate_is_decoded_size [of "''QUI=''"] 1 2
  have 4: "\<exists>bytes. decodeBase64ToUint8Array ''QUI='' = Inr bytes \<and>
                   int (length bytes) = estimateBase64Size ''QUI=''"
    by blast
  from estimate_is_decoded_size [of "''QQ=''"] 3
  have 5: "decodeBase64ToUint8Array ''QQ='' =
             Inl (createApiError ''INVALID_REQUEST'' ''Invalid base64 content'' 400)"
    by blast
  from 1 nows 3 4 5 show ?thesis by blast
qed

section \<open>Folder normalization\<close>

text \<open>
  Claim C6. Folder normalization is meant to be idempotent. On the folder \<^verbatim>\<open>"/ a"\<close> it
  is not: white space is trimmed before the leading slashes are removed, so the result
  \<^verbatim>\<open>" a"\<close> begins with a space, and normalizing it again gives \<^verbatim>\<open>"a"\<close>.
\<close>

theorem normalizeUploadFolder_not_idempotent:
  "normalizeUploadFolder (Str ''/ a'') = Inr '' a'' \<and>
   normalizeUploadFolder (Str '' a'') = Inr ''a''"
  by (simp add: normalizeUploadFolder_def js_trim_def drop_trailing_def is_js_space_def
        is_slash_def starts_with_def)

subsection \<open>The fixed points\<close>

lemma drop_trailing_prefix: "\<exists>zs. xs = drop_trailing P xs @ zs"
proof -
  have "rev (dropWhile P (rev xs)) @ rev (takeWhile P (rev xs)) =
          rev (takeWhile P (rev xs) @ dropWhile P (rev xs))"
    by (simp only: rev_append)
  also have "\<dots> = rev (rev xs)" by (simp only: takeWhile_dropWhile_id)
  also have "\<dots> = xs" by simp
  finally have "xs = rev (dropWhile P (rev xs)) @ rev (takeWhile P (rev xs))" by (rule sym)
  then show ?thesis unfolding drop_trailing_def by blast
qed

lemma drop_trailing_hd: "drop_trailing P xs \<noteq> [] \<Longrightarrow> hd (drop_trailing P xs) = hd xs"
proof -
  assume ne: "drop_trailing P xs \<noteq> []"
  from drop_trailing_prefix [of xs P] obtain zs where "xs = drop_trailing P xs @ zs" ..
  then have "hd xs = hd (drop_trailing P xs @ zs)" by simp
  with ne show ?thesis by simp
qed

lemma drop_trailing_last:
  "drop_trailing P xs \<noteq> [] \<Longrightarrow> \<not> P (last (drop_trailing P xs))"
  unfolding drop_trailing_def using hd_dropWhile [of P "rev xs"] by (simp add: last_rev)

lemma drop_trailing_self: "xs = [] \<or> \<not> P (last xs) \<Longrightarrow> drop_trailing P xs = xs"
  unfolding drop_trailing_def
  by (cases xs rule: rev_cases) auto

lemma collapse_slashes_Nil: "collapse_slashes xs = [] \<longleftrightarrow> xs = []"
  by (induction xs rule: collapse_slashes.induct) (auto simp: is_slash_def)

lemma collapse_slashes_hd: "xs \<noteq> [] \<Longrightarrow> hd (collapse_slashes xs) = hd xs"
  by (induction xs rule: collapse_slashes.induct) (auto simp: is_slash_def)

lemma collapse_slashes_last: "xs \<noteq> [] \<Longrightarrow> last (collapse_slashes xs) = last xs"
  by (induction xs rule: collapse_slashes.induct) (auto simp: is_slash_def collapse_slashes_Nil)

lemma collapse_slashes_idem: "collapse_slashes (collapse_slashes xs) = collapse_slashes xs"
proof (induction xs rule: collapse_slashes.induct)
  case (1 a b cs)
  show ?case
  proof (cases "is_slash a \<and> is_slash b")
    case True
    with 1 show ?thesis by simp
  next
    case False
    have "collapse_slashes (b # cs) \<noteq> []" by (simp add: collapse_slashes_Nil)
    moreover have "hd (collapse_slashes (b # cs)) = b" by (simp add: collapse_slashes_hd)
    ultimately obtain rest where r: "collapse_slashes (b # cs) = b # rest"
      by (cases "collapse_slashes (b # cs)") auto
    from False have "collapse_slashes (a # b # cs) = a # collapse_slashes (b # cs)" by simp
    then have "collapse_slashes (collapse_slashes (a # b # cs)) =
                 collapse_slashes (a # b # rest)" by (simp add: r)
    also have "\<dots> = a # collapse_slashes (b # rest)" using False by simp
    also have "\<dots> = a # collapse_slashes (collapse_slashes (b # cs))" by (simp add: r)
    also have "\<dots> = a # collapse_slashes (b # cs)" using 1(2) False by simp
    also have "\<dots> = collapse_slashes (a # b # cs)" using False by simp
    finally show ?thesis .
  qed
qed simp_all

text \<open>
  Normalizing the result of a normalization gives the same folder whenever that result
  has no white space at either end; the results with white space at an end are those
  of the inputs in which white space follows the leading slashes or precedes the
  trailing ones.
\<close>

lemma normalizeUploadFolder_fixed_point:
  assumes "normalizeUploadFolder (Str s) = Inr t" and "js_trim t = t"
  shows "normalizeUploadFolder (Str t) = Inr t"
proof (cases "t = []")
  case True
  then show ?thesis
    by (simp add: normalizeUploadFolder_def js_trim_def drop_trailing_def)
next
  case False
  let ?u1 = "dropWhile is_slash (js_trim s)"
  let ?u2 = "drop_trailing is_slash ?u1"
  from assms(1) False have t: "t = collapse_slashes ?u2"
    and seg: "check_segments (js_split CHR ''/'' t) = None"
    by (auto simp: normalizeUploadFolder_def Let_def split: if_splits option.splits)
  from t False have u2: "?u2 \<noteq> []" by (simp add: collapse_slashes_Nil)
  then have u1: "?u1 \<noteq> []" by (cases "?u1 = []") (simp_all add: drop_trailing_def)
  have "hd t = hd ?u1"
    using t u2 by (simp add: collapse_slashes_hd drop_trailing_hd)
  with hd_dropWhile [OF u1] have "\<not> is_slash (hd t)" by simp
  then have a: "dropWhile is_slash t = t" by (simp add: dropWhile_eq_self_iff)
  have "last t = last ?u2" using t u2 by (simp add: collapse_slashes_last)
  with drop_trailing_last [OF u2] have "\<not> is_slash (last t)" by simp
  then have b: "drop_trailing is_slash t = t" by (simp add: drop_trailing_self)
  have c: "collapse_slashes t = t" using t collapse_slashes_idem by simp
  show ?thesis
    using False seg by (simp add: normalizeUploadFolder_def assms(2) a b c)
qed

text \<open>A second pass can also raise: the segment \<open>" manage@x"\<close> accepted by the first pass
  is trimmed by the second one into a reserved name, and \<open>" .."\<close> into an illegal one.\<close>

lemma normalizeUploadFolder_second_pass_raises:
  "normalizeUploadFolder (Str ''/ manage@x'') = Inr '' manage@x'' \<and>
   normalizeUploadFolder (Str '' manage@x'') =
     Inl (createApiError ''INVALID_REQUEST''
            ''Invalid uploadFolder: reserved segment name'' 400) \<and>
   normalizeUploadFolder (Str ''/ ..'') = Inr '' ..'' \<and>
   isl (normalizeUploadFolder (Str '' ..''))"
  by code_simp

section \<open>Classification of errors\<close>

lemma get_prop_staged_entry:
  "get_prop (staged_entry item) ''name'' = get_prop (Obj item) ''name'' \<and>
   get_prop (staged_entry item) ''filePath'' = get_prop (Obj item) ''filePath''"
  by (simp add: staged_entry_def json_obj_def)

text \<open>
  Claim C3, as the code has it. An error with the commit-stage marker is answered by the
  first guard of \<^verbatim>\<open>toErrorResponse\<close> that applies, always with \<^verbatim>\<open>success: false\<close>: with
  INVALID_REQUEST and the error's own status (400 when it has none) when its code is
  INVALID_REQUEST; otherwise with RATE_LIMIT and status 429 when its status is 429;
  otherwise with AUTH_ERROR and status 401 when its status is 401 or 403; and otherwise
  with PARTIAL_UPLOAD_NOT_COMMITTED and status 502, listing name and path of every
  staged file. The first three answers do not list the staged files.
\<close>

theorem commit_stage_error_response:
  assumes "err_stage e = Some ''commit''"
  shows "get_prop (resp_body (toErrorResponse e fallbackCode)) ''success'' = Bool False \<and>
         (err_code e = Some ''INVALID_REQUEST'' \<longrightarrow>
            resp_status (toErrorResponse e fallbackCode) = status_or (err_status e) 400 \<and>
            get_prop (resp_body (toErrorResponse e fallbackCode)) ''code'' =
              Str ''INVALID_REQUEST'' \<and>
            get_prop (resp_body (toErrorResponse e fallbackCode)) ''uploadedFiles'' = Undefined) \<and>
         (err_code e \<noteq> Some ''INVALID_REQUEST'' \<and> err_status e = Some 429 \<longrightarrow>
            resp_status (toErrorResponse e fallbackCode) = 429 \<and>
            get_prop (resp_body (toErrorResponse e fallbackCode)) ''code'' = Str ''RATE_LIMIT'' \<and>
            get_prop (resp_body (toErrorResponse e fallbackCode)) ''uploadedFiles'' = Undefined) \<and>
         (err_code e \<noteq> Some ''INVALID_REQUEST'' \<and>
          (err_status e = Some 401 \<or> err_status e = Some 403) \<longrightarrow>
            resp_status (toErrorResponse e fallbackCode) = 401 \<and>
            get_prop (resp_body (toErrorResponse e fallbackCode)) ''code'' = Str ''AUTH_ERROR'' \<and>
            get_prop (resp_body (toErrorResponse e fallbackCode)) ''uploadedFiles'' = Undefined) \<and>
         (err_code e \<noteq> Some ''INVALID_REQUEST'' \<and> err_status e \<noteq> Some 429 \<and>
          err_status e \<noteq> Some 401 \<and> err_status e \<noteq> Some 403 \<longrightarrow>
            resp_status (toErrorResponse e fallbackCode) = 502 \<and>
            get_prop (resp_body (toErrorResponse e fallbackCode)) ''code'' =
              Str ''PARTIAL_UPLOAD_NOT_COMMITTED'' \<and>
            get_prop (resp_body (toErrorResponse e fallbackCode)) ''uploadedFiles'' =
              Arr (map staged_entry
                     (case err_uploadedFiles e of Some items \<Rightarrow> items | None \<Rightarrow> [])) \<and>
            (\<forall>item. get_prop (staged_entry item) ''name'' = get_prop (Obj item) ''name'' \<and>
                    get_prop (staged_entry item) ''filePath'' = get_prop (Obj item) ''filePath''))"
  using assms
  by (simp add: toErrorResponse_def jsonResponse_def json_obj_def get_prop_staged_entry)

theorem commit_stage_error_response_witness:
  "err_stage failed_commit_error = Some ''commit'' \<and>
   err_code failed_commit_error \<noteq> Some ''INVALID_REQUEST'' \<and>
   err_status failed_commit_error \<noteq> Some 429 \<and>
   err_status failed_commit_error \<noteq> Some 401 \<and>
   err_status failed_commit_error \<noteq> Some 403 \<and>
   resp_status (toErrorResponse failed_commit_error ''INTERNAL_ERROR'') = 502 \<and>
   get_prop (resp_body (toErrorResponse failed_commit_error ''INTERNAL_ERROR'')) ''code'' =
     Str ''PARTIAL_UPLOAD_NOT_COMMITTED'' \<and>
   get_prop (resp_body (toErrorResponse failed_commit_error ''INTERNAL_ERROR''))
       ''uploadedFiles'' =
     Arr [Obj [(''name'', Str ''a.jpg''), (''filePath'', Str ''demo/a.jpg'')]] \<and>
   err_stage unauthorized_commit_error = Some ''commit'' \<and>
   err_status unauthorized_commit_error = Some 403 \<and>
   resp_status (toErrorResponse unauthorized_commit_error ''INTERNAL_ERROR'') = 401 \<and>
   get_prop (resp_body (toErrorResponse unauthorized_commit_error ''INTERNAL_ERROR'')) ''code'' =
     Str ''AUTH_ERROR''"
proof -
  have h: "err_stage failed_commit_error = Some ''commit''"
    and g: "err_code failed_commit_error \<noteq> Some ''INVALID_REQUEST''"
    "err_status failed_commit_error \<noteq> Some 429"
    "err_status failed_commit_error \<noteq> Some 401"
    "err_status failed_commit_error \<noteq> Some 403"
    by (simp_all add: failed_commit_error_def)
  have u: "(case err_uploadedFiles failed_commit_error of Some items \<Rightarrow> items | None \<Rightarrow> []) =
          [[(''name'', Str ''a.jpg''), (''filePath'', Str ''demo/a.jpg''), (''oid'', Str ''0f'')]]"
    by (simp add: failed_commit_error_def)
  have h2: "err_stage unauthorized_commit_error = Some ''commit''"
    and g2: "err_code unauthorized_commit_error \<noteq> Some ''INVALID_REQUEST''"
    "err_status unauthorized_commit_error = Some 403"
    by (simp_all add: unauthorized_commit_error_def)
  from commit_stage_error_response [OF h, of "''INTERNAL_ERROR''"] g u
  have a: "resp_status (toErrorResponse failed_commit_error ''INTERNAL_ERROR'') = 502 \<and>
     get_prop (resp_body (toErrorResponse failed_commit_error ''INTERNAL_ERROR'')) ''code'' =
       Str ''PARTIAL_UPLOAD_NOT_COMMITTED'' \<and>
     get_prop (resp_body (toErrorResponse failed_commit_error ''INTERNAL_ERROR''))
        ''uploadedFiles'' =
       Arr [Obj [(''name'', Str ''a.jpg''), (''filePath'', Str ''demo/a.jpg'')]]"
    by (simp add: staged_entry_def json_obj_def)
  from commit_stage_error_response [OF h2, of "''INTERNAL_ERROR''"] g2
  have b: "resp_status (toErrorResponse unauthorized_commit_error ''INTERNAL_ERROR'') = 401 \<and>
     get_prop (resp_body (toErrorResponse unauthorized_commit_error ''INTERNAL_ERROR'')) ''code'' =
       Str ''AUTH_ERROR''"
    by simp
  from h g a h2 g2 b show ?thesis by simp
qed

text \<open>The claim as stated fails: a commit-stage error whose status is 429 is answered
  as RATE_LIMIT with status 429, one whose status is 403 as AUTH_ERROR with status 401,
  and one whose code is INVALID_REQUEST as INVALID_REQUEST with its own status; none of
  the three answers lists the staged files.\<close>

theorem commit_stage_error_response_counterexample:
  "err_stage rate_limited_commit_error = Some ''commit'' \<and>
   resp_status (toErrorResponse rate_limited_commit_error ''INTERNAL_ERROR'') = 429 \<and>
   get_prop (resp_body (toErrorResponse rate_limited_commit_error ''INTERNAL_ERROR''))
       ''code'' = Str ''RATE_LIMIT'' \<and>
   get_prop (resp_body (toErrorResponse rate_limited_commit_error ''INTERNAL_ERROR''))
       ''uploadedFiles'' = Undefined \<and>
   err_stage unauthorized_commit_error = Some ''commit'' \<and>
   resp_status (toErrorResponse unauthorized_commit_error ''INTERNAL_ERROR'') = 401 \<and>
   get_prop (resp_body (toErrorResponse unauthorized_commit_error ''INTERNAL_ERROR''))
       ''code'' = Str ''AUTH_ERROR'' \<and>
   get_prop (resp_body (toErrorResponse unauthorized_commit_error ''INTERNAL_ERROR''))
       ''uploadedFiles'' = Undefined \<and>
   err_stage invalid_commit_error = Some ''commit'' \<and>
   err_status invalid_commit_error = Some 429 \<and>
   resp_status (toErrorResponse invalid_commit_error ''INTERNAL_ERROR'') = 429 \<and>
   get_prop (resp_body (toErrorResponse invalid_commit_error ''INTERNAL_ERROR''))
       ''code'' = Str ''INVALID_REQUEST'' \<and>
   get_prop (resp_body (toErrorResponse invalid_commit_error ''INTERNAL_ERROR''))
       ''uploadedFiles'' = Undefined"
  by (simp add: rate_limited_commit_error_def unauthorized_commit_error_def
        invalid_commit_error_def toErrorResponse_def jsonResponse_def
        json_obj_def num_or_null_def opt_str_def status_or_def)


section \<open>Mime type resolution\<close>

lemma normalizeMimeType_util_Some:
  "normalizeMimeType_util v = Some n \<Longrightarrow> n \<noteq> [] \<and> (\<exists>m. v = Str m \<and> n = js_trim m)"
  by (cases v) (auto simp: normalizeMimeType_util_def Let_def split: if_splits)

lemma extractMimeTypeFromDataUrl_Some: "extractMimeTypeFromDataUrl v = Some d \<Longrightarrow> d \<noteq> []"
  by (cases v)
     (auto simp: extractMimeTypeFromDataUrl_def Let_def
           dest: normalizeMimeType_util_Some split: if_splits option.splits)

lemma extractMimeTypeFromDataUrl_default:
  "extractMimeTypeFromDataUrl (if v = Undefined then Null else v) = extractMimeTypeFromDataUrl v"
  by (simp add: extractMimeTypeFromDataUrl_def)

lemma EXTENSION_MIME_MAP_nonempty: "map_of EXTENSION_MIME_MAP k = Some v \<Longrightarrow> v \<noteq> []"
proof -
  assume "map_of EXTENSION_MIME_MAP k = Some v"
  then have "(k, v) \<in> set EXTENSION_MIME_MAP" by (rule map_of_SomeD)
  then have "v \<in> snd ` set EXTENSION_MIME_MAP" by force
  then show ?thesis unfolding EXTENSION_MIME_MAP_def by auto
qed

lemma js_lower_char_not_upper:
  "\<not> (65 \<le> (of_char (js_lower_char c) :: nat) \<and> (of_char (js_lower_char c) :: nat) \<le> 90)"
proof -
  have "(of_char c :: nat) < 256" by simp
  then show ?thesis by (auto simp: js_lower_char_def Let_def)
qed

lemma toLowerCase_no_upper:
  assumes "list_ex (\<lambda>c. 65 \<le> (of_char c :: nat) \<and> (of_char c :: nat) \<le> 90) k"
  shows "toLowerCase x \<noteq> k"
proof
  assume "toLowerCase x = k"
  with assms obtain c where "c \<in> set x"
    and "65 \<le> (of_char (js_lower_char c) :: nat) \<and> (of_char (js_lower_char c) :: nat) \<le> 90"
    by (auto simp: toLowerCase_def list_ex_iff)
  then show False using js_lower_char_not_upper by blast
qed

lemma file_extension_lower: "file_extension f = Some ext \<Longrightarrow> \<exists>x. ext = toLowerCase x"
  by (auto simp: file_extension_def Let_def split: if_splits option.splits)

lemma inherited_lookup:
  assumes "ext = toLowerCase x" and "ext \<noteq> ''constructor''" and "ext \<noteq> ''__proto__''"
  shows "EXTENSION_MIME_MAP_get ext = Undefined \<or>
         (\<exists>v. EXTENSION_MIME_MAP_get ext = Str v \<and> v \<noteq> [])"
proof (cases "map_of EXTENSION_MIME_MAP ext")
  case (Some v)
  then show ?thesis using EXTENSION_MIME_MAP_nonempty [OF Some]
    by (simp add: EXTENSION_MIME_MAP_get_def)
next
  case None
  have "ext \<notin> set Object_prototype_functions"
  proof
    assume "ext \<in> set Object_prototype_functions"
    with assms(2) have "list_ex (\<lambda>c. 65 \<le> (of_char c :: nat) \<and> (of_char c :: nat) \<le> 90) ext"
      unfolding Object_prototype_functions_def by auto
    with assms(1) show False using toLowerCase_no_upper by blast
  qed
  with None assms(3) show ?thesis by (simp add: EXTENSION_MIME_MAP_get_def)
qed

lemma inferMimeTypeFromFileName_cases:
  assumes "\<forall>f ext. fileName = Str f \<and> file_extension f = Some ext \<longrightarrow>
             ext \<noteq> ''constructor'' \<and> ext \<noteq> ''__proto__''"
  shows "inferMimeTypeFromFileName fileName = Null \<or>
         (\<exists>v. inferMimeTypeFromFileName fileName = Str v \<and> v \<noteq> [])"
proof (cases fileName)
  case (Str f)
  show ?thesis
  proof (cases "file_extension f")
    case None
    with Str show ?thesis by (simp add: inferMimeTypeFromFileName_def)
  next
    case (Some ext)
    with assms Str have ne: "ext \<noteq> ''constructor''" "ext \<noteq> ''__proto__''" by auto
    from file_extension_lower [OF Some] obtain x where "ext = toLowerCase x" ..
    from inherited_lookup [OF this ne] Str Some show ?thesis
      by (auto simp: inferMimeTypeFromFileName_def)
  qed
qed (simp_all add: inferMimeTypeFromFileName_def)


text \<open>
  Claim C10, as the code has it. When the configured default is absent or a non-empty
  string, and the file name's extension in lower case is not \<^verbatim>\<open>constructor\<close> or
  \<^verbatim>\<open>__proto__\<close>, \<^verbatim>\<open>resolveMimeType\<close> returns a non-empty string. In every case the
  precedence is: the declared mime type, trimmed, when it is valid and not
  \<^verbatim>\<open>application/octet-stream\<close>; otherwise the valid mime type of the data URL; otherwise
  the one inferred from the file name; otherwise the declared one when valid; otherwise
  the default.
\<close>

theorem resolveMimeType_precedence:
  assumes "defaultMimeTypeOpt = Undefined \<or> (\<exists>d. defaultMimeTypeOpt = Str d \<and> d \<noteq> [])"
    and "\<forall>f ext. fileName = Str f \<and> file_extension f = Some ext \<longrightarrow>
           ext \<noteq> ''constructor'' \<and> ext \<noteq> ''__proto__''"
  shows "(\<exists>r. resolveMimeType mimeType fileName dataUrlValueOpt defaultMimeTypeOpt = Str r \<and>
              r \<noteq> []) \<and>
         (\<forall>m n. mimeType = Str m \<and> normalizeMimeType_util mimeType = Some n \<longrightarrow>
                n = js_trim m) \<and>
         resolveMimeType mimeType fileName dataUrlValueOpt defaultMimeTypeOpt =
           (case normalizeMimeType_util mimeType of
              Some n \<Rightarrow>
                if \<not> isOctetStreamMimeType (Str n) then Str n
                else (case extractMimeTypeFromDataUrl dataUrlValueOpt of
                        Some d \<Rightarrow> Str d
                      | None \<Rightarrow>
                          if inferMimeTypeFromFileName fileName \<noteq> Null
                          then inferMimeTypeFromFileName fileName else Str n)
            | None \<Rightarrow>
                (case extractMimeTypeFromDataUrl dataUrlValueOpt of
                   Some d \<Rightarrow> Str d
                 | None \<Rightarrow>
                     if inferMimeTypeFromFileName fileName \<noteq> Null
                     then inferMimeTypeFromFileName fileName
                     else if defaultMimeTypeOpt = Undefined
                          then Str ''application/octet-stream'' else defaultMimeTypeOpt))"
proof -
  let ?R = "resolveMimeType mimeType fileName dataUrlValueOpt defaultMimeTypeOpt"
  let ?I = "inferMimeTypeFromFileName fileName"
  from inferMimeTypeFromFileName_cases [OF assms(2)]
  have inf: "?I = Null \<or> (\<exists>v. ?I = Str v \<and> v \<noteq> [])" .
  then have tr: "truthy ?I \<longleftrightarrow> ?I \<noteq> Null" by auto
  have eq: "?R =
           (case normalizeMimeType_util mimeType of
              Some n \<Rightarrow>
                if \<not> isOctetStreamMimeType (Str n) then Str n
                else (case extractMimeTypeFromDataUrl dataUrlValueOpt of
                        Some d \<Rightarrow> Str d
                      | None \<Rightarrow> if ?I \<noteq> Null then ?I else Str n)
            | None \<Rightarrow>
                (case extractMimeTypeFromDataUrl dataUrlValueOpt of
                   Some d \<Rightarrow> Str d
                 | None \<Rightarrow>
                     if ?I \<noteq> Null then ?I
                     else if defaultMimeTypeOpt = Undefined
                          then Str ''application/octet-stream'' else defaultMimeTypeOpt))"
    unfolding resolveMimeType_def Let_def extractMimeTypeFromDataUrl_default tr
    by (simp split: option.splits)
  have ne: "\<exists>r. ?R = Str r \<and> r \<noteq> []"
    unfolding eq using inf assms(1)
    by (auto split: option.splits
             dest: normalizeMimeType_util_Some extractMimeTypeFromDataUrl_Some)
  have trimmed: "\<forall>m n. mimeType = Str m \<and> normalizeMimeType_util mimeType = Some n \<longrightarrow>
                   n = js_trim m"
    using normalizeMimeType_util_Some by fastforce
  from ne trimmed eq show ?thesis by blast
qed

theorem resolveMimeType_precedence_witness:
  "file_extension ''photo.JPG?v=2'' = Some ''jpg'' \<and>
   resolveMimeType (Str '' application/octet-stream '') (Str ''photo.JPG?v=2'') Undefined
     Undefined = Str ''image/jpeg'' \<and>
   resolveMimeType (Str '' image/png '') (Str ''photo.JPG?v=2'') Undefined Undefined =
     Str ''image/png''"
proof -
  have x: "file_extension ''photo.JPG?v=2'' = Some ''jpg''" by code_simp
  have d: "(Undefined = Undefined \<or> (\<exists>d. Undefined = Str d \<and> d \<noteq> []))" by simp
  have e: "\<forall>f ext. Str ''photo.JPG?v=2'' = Str f \<and> file_extension f = Some ext \<longrightarrow>
             ext \<noteq> ''constructor'' \<and> ext \<noteq> ''__proto__''"
    using x by auto
  have n1: "normalizeMimeType_util (Str '' application/octet-stream '') =
              Some ''application/octet-stream''" by code_simp
  have o1: "isOctetStreamMimeType (Str ''application/octet-stream'')" by code_simp
  have i1: "inferMimeTypeFromFileName (Str ''photo.JPG?v=2'') = Str ''image/jpeg''" by code_simp
  have u: "extractMimeTypeFromDataUrl Undefined = None"
    by (simp add: extractMimeTypeFromDataUrl_def)
  have n2: "normalizeMimeType_util (Str '' image/png '') = Some ''image/png''" by code_simp
  have o2: "\<not> isOctetStreamMimeType (Str ''image/png'')" by code_simp
  from resolveMimeType_precedence [OF d e, of "Str '' application/octet-stream ''" Undefined]
  have r1: "resolveMimeType (Str '' application/octet-stream '') (Str ''photo.JPG?v=2'')
              Undefined Undefined = Str ''image/jpeg''"
    by (simp add: n1 o1 i1 u)
  from resolveMimeType_precedence [OF d e, of "Str '' image/png ''" Undefined]
  have r2: "resolveMimeType (Str '' image/png '') (Str ''photo.JPG?v=2'') Undefined Undefined =
              Str ''image/png''"
    by (simp add: n2 o2)
  from x r1 r2 show ?thesis by blast
qed

text \<open>The claim as stated fails: with the empty string configured as the default, a
  file name without extension and no declared type resolve to the empty string.\<close>

theorem resolveMimeType_precedence_counterexample:
  "resolveMimeType Undefined (Str ''notes'') Undefined (Str []) = Str []"
  by code_simp

text \<open>An extension that names a property inherited by the table resolves to that
  property, which is not a string.\<close>

lemma resolveMimeType_inherited_property:
  "resolveMimeType Undefined (Str ''x.constructor'') Undefined Undefined = Native ''Object''"
  by code_simp


section \<open>The budgeter\<close>

lemma createApiError_sel [simp]:
  "err_code (createApiError c m st) = Some c"
  "err_status (createApiError c m st) = Some st"
  "err_message (createApiError c m st) = Some m"
  "err_stage (createApiError c m st) = None"
  by (simp_all add: createApiError_def)

lemma normalizeFileName_error:
  "normalizeFileName v = Inl e \<Longrightarrow>
   err_code e = Some ''INVALID_REQUEST'' \<and> err_status e = Some 400"
  by (cases v) (auto simp: normalizeFileName_def Let_def split: if_splits)

lemma normalizeContentBase64_error:
  "normalizeContentBase64 v = Inl e \<Longrightarrow>
   err_code e = Some ''INVALID_REQUEST'' \<and> err_status e = Some 400"
  by (cases v) (auto simp: normalizeContentBase64_def Let_def split: if_splits)

lemma decodeBase64ToUint8Array_error:
  "decodeBase64ToUint8Array b = Inl e \<Longrightarrow>
   err_code e = Some ''INVALID_REQUEST'' \<and> err_status e = Some 400"
  by (auto simp: decodeBase64ToUint8Array_def split: option.splits)

lemma decodeBase64ToUint8Array_Inr: "(\<exists>bytes. decodeBase64ToUint8Array b = Inr bytes) \<longleftrightarrow> atob b \<noteq> None"
  by (auto simp: decodeBase64ToUint8Array_def split: option.splits)

lemma prepare_file_error:
  "prepare_file env i t seen entry = Inl e \<Longrightarrow>
   err_code e = Some ''INVALID_REQUEST'' \<and> err_status e = Some 400"
  by (auto simp: prepare_file_def Let_def
           dest: normalizeFileName_error normalizeContentBase64_error
                 decodeBase64ToUint8Array_error
           split: sum.splits if_splits)

lemma prepare_file_Inr_D:
  assumes "prepare_file env i t seen entry = Inr (sz, p)"
  shows "entry_normalizes entry \<and> sz = entry_size entry \<and> 0 < sz \<and>
         sz \<le> le_maxSingleFileSize env \<and> t + sz \<le> le_maxTotalSize env \<and>
         entry_name entry = Inr (pf_name p) \<and>
         pf_fullId p = entry_fullId (le_normalizedFolder env) entry \<and>
         pf_filePath p = pf_fullId p \<and>
         \<not> starts_with (pf_fullId p) ''manage@'' \<and> pf_fullId p \<notin> set seen"
  using assms
  by (auto simp: prepare_file_def Let_def entry_normalizes_def entry_size_def entry_name_def
                 entry_content_def entry_fullId_def decodeBase64ToUint8Array_def
           split: sum.splits if_splits option.splits)

lemma prepare_file_Inr_I:
  assumes "entry_normalizes entry" and "0 < entry_size entry"
    and "entry_size entry \<le> le_maxSingleFileSize env"
    and "t + entry_size entry \<le> le_maxTotalSize env"
    and "\<not> starts_with (entry_fullId (le_normalizedFolder env) entry) ''manage@''"
    and "entry_fullId (le_normalizedFolder env) entry \<notin> set seen"
  shows "\<exists>p. prepare_file env i t seen entry = Inr (entry_size entry, p)"
  using assms
  by (auto simp: prepare_file_def Let_def entry_normalizes_def entry_size_def entry_name_def
                 entry_content_def entry_fullId_def decodeBase64ToUint8Array_def
           split: sum.splits if_splits option.splits)

lemma prepare_file_total_error:
  assumes "entry_name entry = Inr n" and "entry_content entry = Inr b"
    and "0 < entry_size entry" and "entry_size entry \<le> le_maxSingleFileSize env"
    and "t + entry_size entry > le_maxTotalSize env"
  shows "prepare_file env i t seen entry = Inl (total_size_error env)"
  using assms
  by (auto simp: prepare_file_def Let_def entry_size_def entry_name_def
                 entry_content_def total_size_error_def)

lemma prepare_file_size_error:
  assumes "entry_size entry \<le> 0 \<or> entry_size entry > le_maxSingleFileSize env"
  shows "\<exists>e. prepare_file env i t seen entry = Inl e"
  using assms
  by (auto simp: prepare_file_def Let_def entry_size_def entry_content_def
           split: sum.splits)


lemma prepare_loop_error:
  "prepare_loop env i t seen files = Inl e \<Longrightarrow>
   err_code e = Some ''INVALID_REQUEST'' \<and> err_status e = Some 400"
proof (induction files arbitrary: i t seen)
  case Nil
  then show ?case by simp
next
  case (Cons entry files)
  show ?case
  proof (cases "prepare_file env i t seen entry")
    case (Inl e')
    with Cons.prems have "e' = e" by simp
    with Inl show ?thesis using prepare_file_error by blast
  next
    case (Inr r)
    obtain sz p where r: "r = (sz, p)" by (cases r)
    with Inr Cons.prems
    have "prepare_loop env (Suc i) (t + sz) (seen @ [pf_fullId p]) files = Inl e"
      by (simp split: sum.splits)
    then show ?thesis by (rule Cons.IH)
  qed
qed

lemma prepare_loop_Inr_D:
  "prepare_loop env i t seen files = Inr ps \<Longrightarrow> t \<le> le_maxTotalSize env \<Longrightarrow>
   list_all (\<lambda>entry. entry_normalizes entry \<and> 0 < entry_size entry \<and>
                      entry_size entry \<le> le_maxSingleFileSize env) files \<and>
   t + sum_list (map entry_size files) \<le> le_maxTotalSize env \<and>
   map pf_fullId ps = map (entry_fullId (le_normalizedFolder env)) files \<and>
   (\<forall>p\<in>set ps. pf_filePath p = pf_fullId p) \<and>
   map (\<lambda>p. Inr (pf_name p)) ps = map entry_name files \<and>
   distinct (map (entry_fullId (le_normalizedFolder env)) files) \<and>
   set (map (entry_fullId (le_normalizedFolder env)) files) \<inter> set seen = {} \<and>
   list_all (\<lambda>entry. \<not> starts_with (entry_fullId (le_normalizedFolder env) entry) ''manage@'')
     files"
proof (induction files arbitrary: i t seen ps)
  case Nil
  then show ?case by simp
next
  case (Cons entry files)
  from Cons.prems obtain sz p rest where
    f: "prepare_file env i t seen entry = Inr (sz, p)"
    and l: "prepare_loop env (Suc i) (t + sz) (seen @ [pf_fullId p]) files = Inr rest"
    and ps: "ps = p # rest"
    by (auto split: sum.splits)
  note d = prepare_file_Inr_D [OF f]
  from d have "t + sz \<le> le_maxTotalSize env" by simp
  note ih = Cons.IH [OF l this]
  from d ih ps show ?case by (auto simp: add.assoc)
qed

lemma prepare_loop_Inr_I:
  "list_all (\<lambda>entry. entry_normalizes entry \<and> 0 < entry_size entry \<and>
                      entry_size entry \<le> le_maxSingleFileSize env) files \<Longrightarrow>
   t + sum_list (map entry_size files) \<le> le_maxTotalSize env \<Longrightarrow>
   distinct (map (entry_fullId (le_normalizedFolder env)) files) \<Longrightarrow>
   set (map (entry_fullId (le_normalizedFolder env)) files) \<inter> set seen = {} \<Longrightarrow>
   list_all (\<lambda>entry. \<not> starts_with (entry_fullId (le_normalizedFolder env) entry) ''manage@'')
     files \<Longrightarrow>
   \<exists>ps. prepare_loop env i t seen files = Inr ps"
proof (induction files arbitrary: i t seen)
  case Nil
  then show ?case by simp
next
  case (Cons entry files)
  have nonneg: "0 \<le> sum_list (map entry_size files)"
    using Cons.prems(1) by (induction files) auto
  with Cons.prems(2) have t1: "t + entry_size entry \<le> le_maxTotalSize env" by simp
  from Cons.prems(1,3,4,5) t1
  obtain p where f: "prepare_file env i t seen entry = Inr (entry_size entry, p)"
    using prepare_file_Inr_I [of entry env t seen i] by auto
  from prepare_file_Inr_D [OF f]
  have id: "pf_fullId p = entry_fullId (le_normalizedFolder env) entry" by simp
  have "\<exists>ps. prepare_loop env (Suc i) (t + entry_size entry) (seen @ [pf_fullId p]) files = Inr ps"
  proof (rule Cons.IH)
    show "list_all (\<lambda>entry. entry_normalizes entry \<and> 0 < entry_size entry \<and>
                      entry_size entry \<le> le_maxSingleFileSize env) files"
      using Cons.prems(1) by simp
    show "t + entry_size entry + sum_list (map entry_size files) \<le> le_maxTotalSize env"
      using Cons.prems(2) by (simp add: add.assoc)
    show "distinct (map (entry_fullId (le_normalizedFolder env)) files)"
      using Cons.prems(3) by simp
    show "set (map (entry_fullId (le_normalizedFolder env)) files) \<inter> set (seen @ [pf_fullId p]) = {}"
      using Cons.prems(3,4) id by auto
    show "list_all (\<lambda>entry. \<not> starts_with (entry_fullId (le_normalizedFolder env) entry) ''manage@'')
            files"
      using Cons.prems(5) by simp
  qed
  with f show ?case by auto
qed

lemma prepare_loop_fail_fast:
  "prepare_loop env i t seen pre = Inr ps \<Longrightarrow>
   prepare_file env (i + length pre) (t + sum_list (map entry_size pre))
     (seen @ map pf_fullId ps) entry = Inl e \<Longrightarrow>
   prepare_loop env i t seen (pre @ entry # post) = Inl e"
proof (induction pre arbitrary: i t seen ps)
  case Nil
  then show ?case by simp
next
  case (Cons x pre)
  from Cons.prems(1) obtain sz p rest where
    f: "prepare_file env i t seen x = Inr (sz, p)"
    and l: "prepare_loop env (Suc i) (t + sz) (seen @ [pf_fullId p]) pre = Inr rest"
    and ps: "ps = p # rest"
    by (auto split: sum.splits)
  from prepare_file_Inr_D [OF f] have sz: "sz = entry_size x" by simp
  have "prepare_loop env (Suc i) (t + sz) (seen @ [pf_fullId p]) (pre @ entry # post) = Inl e"
  proof (rule Cons.IH [OF l])
    show "prepare_file env (Suc i + length pre) (t + sz + sum_list (map entry_size pre))
            ((seen @ [pf_fullId p]) @ map pf_fullId rest) entry = Inl e"
      using Cons.prems(2) ps sz by (simp add: add.assoc)
  qed
  with f show ?case by simp
qed

lemma prepare_files_iff_valid:
  assumes "0 \<le> le_maxTotalSize env"
  shows "(\<exists>ps. prepare_files env files = Inr ps) \<longleftrightarrow> batch_valid env files"
proof
  assume "\<exists>ps. prepare_files env files = Inr ps"
  then obtain ps where "prepare_loop env 0 0 [] files = Inr ps"
    by (auto simp: prepare_files_def)
  from prepare_loop_Inr_D [OF this assms] show "batch_valid env files"
    by (simp add: batch_valid_def entries_valid_def list_all_iff)
next
  assume v: "batch_valid env files"
  then have "\<exists>ps. prepare_loop env 0 0 [] files = Inr ps"
    by (intro prepare_loop_Inr_I) (auto simp: batch_valid_def entries_valid_def list_all_iff)
  then show "\<exists>ps. prepare_files env files = Inr ps" by (simp add: prepare_files_def)
qed

lemma prepare_files_Inr_D:
  assumes "prepare_files env files = Inr ps" and "0 \<le> le_maxTotalSize env"
  shows "map pf_fullId ps = map (entry_fullId (le_normalizedFolder env)) files \<and>
         map pf_filePath ps = map (entry_fullId (le_normalizedFolder env)) files \<and>
         map (\<lambda>p. Inr (pf_name p)) ps = map entry_name files \<and> length ps = length files"
proof -
  from assms have l: "prepare_loop env 0 0 [] files = Inr ps" by (simp add: prepare_files_def)
  from prepare_loop_Inr_D [OF l assms(2)]
  have 1: "map pf_fullId ps = map (entry_fullId (le_normalizedFolder env)) files"
    and 2: "\<forall>p\<in>set ps. pf_filePath p = pf_fullId p"
    and 3: "map (\<lambda>p. Inr (pf_name p)) ps = map entry_name files"
    by blast+
  from 2 have "map pf_filePath ps = map pf_fullId ps" by simp
  with 1 have 4: "map pf_filePath ps = map (entry_fullId (le_normalizedFolder env)) files"
    by simp
  from 1 have "length ps = length files" by (rule map_eq_imp_length_eq)
  with 1 3 4 show ?thesis by blast
qed

lemma prepare_files_error:
  "prepare_files env files = Inl e \<Longrightarrow>
   err_code e = Some ''INVALID_REQUEST'' \<and> err_status e = Some 400"
  unfolding prepare_files_def by (rule prepare_loop_error)

lemma prepare_files_cases:
  "(\<exists>ps. prepare_files env files = Inr ps) \<or>
   (\<exists>e. prepare_files env files = Inl e \<and> err_code e = Some ''INVALID_REQUEST'' \<and>
        err_status e = Some 400)"
  using prepare_files_error by (cases "prepare_files env files") auto


lemma prepare_loop_total_exceeded:
  "list_all (\<lambda>entry. entry_normalizes entry \<and> 0 < entry_size entry \<and>
                      entry_size entry \<le> le_maxSingleFileSize env) files \<Longrightarrow>
   distinct (map (entry_fullId (le_normalizedFolder env)) files) \<Longrightarrow>
   set (map (entry_fullId (le_normalizedFolder env)) files) \<inter> set seen = {} \<Longrightarrow>
   list_all (\<lambda>entry. \<not> starts_with (entry_fullId (le_normalizedFolder env) entry) ''manage@'')
     files \<Longrightarrow>
   t + sum_list (map entry_size files) > le_maxTotalSize env \<Longrightarrow> t \<le> le_maxTotalSize env \<Longrightarrow>
   prepare_loop env i t seen files = Inl (total_size_error env)"
proof (induction files arbitrary: i t seen)
  case Nil
  then show ?case by simp
next
  case (Cons entry files)
  from Cons.prems(1) have norm: "entry_normalizes entry" and pos: "0 < entry_size entry"
    and single: "entry_size entry \<le> le_maxSingleFileSize env" by simp_all
  show ?case
  proof (cases "t + entry_size entry > le_maxTotalSize env")
    case True
    from norm obtain n b where "entry_name entry = Inr n" "entry_content entry = Inr b"
      by (auto simp: entry_normalizes_def split: sum.splits)
    from prepare_file_total_error [OF this pos single True]
    show ?thesis by simp
  next
    case False
    then have t1: "t + entry_size entry \<le> le_maxTotalSize env" by simp
    from Cons.prems(2,3,4) norm pos single t1
    obtain p where f: "prepare_file env i t seen entry = Inr (entry_size entry, p)"
      using prepare_file_Inr_I [of entry env t seen i] by auto
    from prepare_file_Inr_D [OF f]
    have id: "pf_fullId p = entry_fullId (le_normalizedFolder env) entry" by simp
    have "prepare_loop env (Suc i) (t + entry_size entry) (seen @ [pf_fullId p]) files =
            Inl (total_size_error env)"
    proof (rule Cons.IH)
      show "list_all (\<lambda>entry. entry_normalizes entry \<and> 0 < entry_size entry \<and>
                      entry_size entry \<le> le_maxSingleFileSize env) files"
        using Cons.prems(1) by simp
      show "distinct (map (entry_fullId (le_normalizedFolder env)) files)"
        using Cons.prems(2) by simp
      show "set (map (entry_fullId (le_normalizedFolder env)) files) \<inter>
              set (seen @ [pf_fullId p]) = {}"
        using Cons.prems(2,3) id by auto
      show "list_all (\<lambda>entry. \<not> starts_with (entry_fullId (le_normalizedFolder env) entry)
                     ''manage@'') files"
        using Cons.prems(4) by simp
      show "le_maxTotalSize env < t + entry_size entry + sum_list (map entry_size files)"
        using Cons.prems(5) by (simp add: add.assoc)
      show "t + entry_size entry \<le> le_maxTotalSize env" by (rule t1)
    qed
    with f show ?thesis by simp
  qed
qed

lemma entries_valid_accepted:
  assumes "entries_valid env files"
    and "sum_list (map entry_size files) \<le> le_maxTotalSize env"
  shows "\<exists>ps. prepare_files env files = Inr ps \<and> length ps = length files"
proof -
  from assms have "\<exists>ps. prepare_loop env 0 0 [] files = Inr ps"
    by (intro prepare_loop_Inr_I) (auto simp: entries_valid_def)
  then obtain ps where l: "prepare_loop env 0 0 [] files = Inr ps" ..
  have "0 \<le> sum_list (map entry_size files)"
    using assms(1) unfolding entries_valid_def by (induction files) auto
  with assms(2) have "0 \<le> le_maxTotalSize env" by simp
  from prepare_loop_Inr_D [OF l this]
  have "map pf_fullId ps = map (entry_fullId (le_normalizedFolder env)) files" by blast
  then have "length ps = length files" by (rule map_eq_imp_length_eq)
  with l show ?thesis by (simp add: prepare_files_def)
qed

lemma entries_valid_rejected:
  assumes "entries_valid env files"
    and "sum_list (map entry_size files) > le_maxTotalSize env"
    and "0 \<le> le_maxTotalSize env"
  shows "prepare_files env files = Inl (total_size_error env)"
  unfolding prepare_files_def
  using assms by (intro prepare_loop_total_exceeded) (auto simp: entries_valid_def)

lemma prepare_files_size_rejected:
  assumes "entry \<in> set files"
    and "entry_size entry \<le> 0 \<or> entry_size entry > le_maxSingleFileSize env"
  shows "\<exists>e. prepare_files env files = Inl e \<and> err_code e = Some ''INVALID_REQUEST'' \<and>
             err_status e = Some 400"
proof (cases "prepare_files env files")
  case (Inl e)
  with prepare_files_error [OF Inl] show ?thesis by simp
next
  case (Inr ps)
  then have l: "prepare_loop env 0 0 [] files = Inr ps" by (simp add: prepare_files_def)
  have "\<And>i t seen ps. prepare_loop env i t seen files = Inr ps \<Longrightarrow>
          0 < entry_size entry \<and> entry_size entry \<le> le_maxSingleFileSize env"
    using assms(1)
  proof (induction files)
    case Nil
    then show ?case by simp
  next
    case (Cons x xs)
    from Cons.prems(1) obtain sz p rest where
      f: "prepare_file env i t seen x = Inr (sz, p)"
      and r: "prepare_loop env (Suc i) (t + sz) (seen @ [pf_fullId p]) xs = Inr rest"
      by (auto split: sum.splits)
    show ?case
    proof (cases "entry = x")
      case True
      with prepare_file_Inr_D [OF f] show ?thesis by simp
    next
      case False
      with Cons.prems(2) have "entry \<in> set xs" by simp
      from Cons.IH [OF r this] show ?thesis .
    qed
  qed
  from this [OF l] assms(2) show ?thesis by simp
qed

lemma prepare_files_fail_fast:
  assumes "prepare_files env pre = Inr ps" and "0 \<le> le_maxTotalSize env"
    and "entry_name entry = Inr n" and "entry_content entry = Inr b"
    and "0 < entry_size entry" and "entry_size entry \<le> le_maxSingleFileSize env"
    and "sum_list (map entry_size pre) + entry_size entry > le_maxTotalSize env"
  shows "prepare_files env (pre @ entry # post) = Inl (total_size_error env)"
proof -
  from assms(1) have l: "prepare_loop env 0 0 [] pre = Inr ps" by (simp add: prepare_files_def)
  have "prepare_file env (0 + length pre) (0 + sum_list (map entry_size pre))
          ([] @ map pf_fullId ps) entry = Inl (total_size_error env)"
    using assms(3-7) by (intro prepare_file_total_error) simp_all
  from prepare_loop_fail_fast [OF l this] show ?thesis by (simp add: prepare_files_def)
qed

lemma entry_size_nonneg: "0 \<le> entry_size entry"
  by (simp add: entry_size_def estimateBase64Size_def Let_def split: sum.splits)

lemma sum_entry_size_nonneg: "0 \<le> sum_list (map entry_size files)"
  by (induction files) (simp_all add: entry_size_nonneg)

lemma prepare_file_total_error_D:
  assumes "prepare_file env i t seen entry = Inl (total_size_error env)"
  shows "t + entry_size entry > le_maxTotalSize env"
  using assms
  by (auto simp: prepare_file_def Let_def total_size_error_def createApiError_def
                 normalizeFileName_def normalizeContentBase64_def entry_size_def
                 entry_content_def decodeBase64ToUint8Array_def
           split: sum.splits if_splits option.splits jsval.splits)

lemma prepare_loop_total_error_D:
  "prepare_loop env i t seen files = Inl (total_size_error env) \<Longrightarrow>
   t + sum_list (map entry_size files) > le_maxTotalSize env"
proof (induction files arbitrary: i t seen)
  case Nil
  then show ?case by simp
next
  case (Cons entry files)
  show ?case
  proof (cases "prepare_file env i t seen entry")
    case (Inl e)
    with Cons.prems have "e = total_size_error env" by simp
    with Inl have "t + entry_size entry > le_maxTotalSize env"
      using prepare_file_total_error_D by blast
    with sum_entry_size_nonneg [of files] show ?thesis by simp
  next
    case (Inr r)
    obtain sz p where r: "r = (sz, p)" by (cases r)
    from prepare_file_Inr_D [OF Inr [unfolded r]] have sz: "sz = entry_size entry" by simp
    from Inr r Cons.prems
    have "prepare_loop env (Suc i) (t + sz) (seen @ [pf_fullId p]) files =
            Inl (total_size_error env)"
      by (simp split: sum.splits)
    from Cons.IH [OF this] sz show ?thesis by (simp add: add.assoc)
  qed
qed

lemma total_within_limit_not_rejected:
  assumes "sum_list (map entry_size files) \<le> le_maxTotalSize env"
  shows "prepare_files env files \<noteq> Inl (total_size_error env)"
proof
  assume "prepare_files env files = Inl (total_size_error env)"
  then have "prepare_loop env 0 0 [] files = Inl (total_size_error env)"
    by (simp add: prepare_files_def)
  from prepare_loop_total_error_D [OF this] assms show False by simp
qed

lemma total_over_limit_rejected:
  assumes "0 \<le> le_maxTotalSize env"
    and "sum_list (map entry_size files) > le_maxTotalSize env"
  shows "\<exists>e. prepare_files env files = Inl e \<and> err_code e = Some ''INVALID_REQUEST'' \<and>
             err_status e = Some 400"
proof -
  from assms(2) have "\<not> batch_valid env files" by (simp add: batch_valid_def)
  with prepare_files_iff_valid [OF assms(1), of files] prepare_files_cases [of env files]
  show ?thesis by auto
qed

text \<open>
  Claim C4. In the loop over the files: a batch with an entry whose estimated size is 0
  or above \<open>maxSingleFileSize\<close> is rejected with INVALID_REQUEST; a batch of otherwise
  valid entries is accepted when the estimated sizes sum to at most \<open>maxTotalSize\<close>, so
  at exactly \<open>maxTotalSize\<close>, and rejected with INVALID_REQUEST when they sum to more, so
  at \<open>maxTotalSize + 1\<close>; and the total is checked entry by entry: the first entry whose
  size takes the running total over the limit raises the error, whatever follows it and
  before it is decoded. Whatever the entries are, a batch whose sizes sum to at most
  \<open>maxTotalSize\<close> is never rejected for its total size, and a batch whose sizes sum to
  more is rejected with INVALID_REQUEST.
\<close>

theorem budgeter_size_limits:
  "(\<forall>entry. entry \<in> set files \<and>
            (entry_size entry \<le> 0 \<or> entry_size entry > le_maxSingleFileSize env) \<longrightarrow>
      (\<exists>e. prepare_files env files = Inl e \<and> err_code e = Some ''INVALID_REQUEST'' \<and>
           err_status e = Some 400)) \<and>
   (entries_valid env files \<and> sum_list (map entry_size files) \<le> le_maxTotalSize env \<longrightarrow>
      (\<exists>ps. prepare_files env files = Inr ps \<and> length ps = length files)) \<and>
   (entries_valid env files \<and> 0 \<le> le_maxTotalSize env \<and>
    sum_list (map entry_size files) > le_maxTotalSize env \<longrightarrow>
      prepare_files env files = Inl (total_size_error env) \<and>
      err_code (total_size_error env) = Some ''INVALID_REQUEST'' \<and>
      err_status (total_size_error env) = Some 400) \<and>
   (\<forall>pre ps entry n b post.
      prepare_files env pre = Inr ps \<and> 0 \<le> le_maxTotalSize env \<and>
      entry_name entry = Inr n \<and> entry_content entry = Inr b \<and>
      0 < entry_size entry \<and> entry_size entry \<le> le_maxSingleFileSize env \<and>
      sum_list (map entry_size pre) + entry_size entry > le_maxTotalSize env \<longrightarrow>
      prepare_files env (pre @ entry # post) = Inl (total_size_error env)) \<and>
   (sum_list (map entry_size files) \<le> le_maxTotalSize env \<longrightarrow>
      prepare_files env files \<noteq> Inl (total_size_error env)) \<and>
   (0 \<le> le_maxTotalSize env \<and> sum_list (map entry_size files) > le_maxTotalSize env \<longrightarrow>
      (\<exists>e. prepare_files env files = Inl e \<and> err_code e = Some ''INVALID_REQUEST'' \<and>
           err_status e = Some 400))"
proof (intro conjI allI impI)
  fix entry
  assume "entry \<in> set files \<and>
          (entry_size entry \<le> 0 \<or> entry_size entry > le_maxSingleFileSize env)"
  then show "\<exists>e. prepare_files env files = Inl e \<and> err_code e = Some ''INVALID_REQUEST'' \<and>
                 err_status e = Some 400"
    using prepare_files_size_rejected by blast
next
  assume "entries_valid env files \<and> sum_list (map entry_size files) \<le> le_maxTotalSize env"
  then show "\<exists>ps. prepare_files env files = Inr ps \<and> length ps = length files"
    using entries_valid_accepted by blast
next
  assume "entries_valid env files \<and> 0 \<le> le_maxTotalSize env \<and>
          sum_list (map entry_size files) > le_maxTotalSize env"
  then show "prepare_files env files = Inl (total_size_error env)"
    using entries_valid_rejected by blast
next
  show "err_code (total_size_error env) = Some ''INVALID_REQUEST''"
    by (simp add: total_size_error_def)
next
  show "err_status (total_size_error env) = Some 400"
    by (simp add: total_size_error_def)
next
  fix pre ps entry n b post
  assume "prepare_files env pre = Inr ps \<and> 0 \<le> le_maxTotalSize env \<and>
      entry_name entry = Inr n \<and> entry_content entry = Inr b \<and>
      0 < entry_size entry \<and> entry_size entry \<le> le_maxSingleFileSize env \<and>
      sum_list (map entry_size pre) + entry_size entry > le_maxTotalSize env"
  then show "prepare_files env (pre @ entry # post) = Inl (total_size_error env)"
    using prepare_files_fail_fast by blast
next
  assume "sum_list (map entry_size files) \<le> le_maxTotalSize env"
  then show "prepare_files env files \<noteq> Inl (total_size_error env)"
    by (rule total_within_limit_not_rejected)
next
  assume "0 \<le> le_maxTotalSize env \<and> sum_list (map entry_size files) > le_maxTotalSize env"
  then show "\<exists>e. prepare_files env files = Inl e \<and> err_code e = Some ''INVALID_REQUEST'' \<and>
                 err_status e = Some 400"
    using total_over_limit_rejected by blast
qed


theorem budgeter_size_limits_witness:
  "entries_valid small_env [entry_3_bytes, entry_1_byte] \<and>
   sum_list (map entry_size [entry_3_bytes, entry_1_byte]) = le_maxTotalSize small_env \<and>
   (\<exists>ps. prepare_files small_env [entry_3_bytes, entry_1_byte] = Inr ps \<and> length ps = 2) \<and>
   entries_valid small_env [entry_3_bytes, entry_2_bytes] \<and>
   sum_list (map entry_size [entry_3_bytes, entry_2_bytes]) = le_maxTotalSize small_env + 1 \<and>
   prepare_files small_env [entry_3_bytes, entry_2_bytes] = Inl (total_size_error small_env) \<and>
   entry_size entry_0_bytes = 0 \<and>
   (\<exists>e. prepare_files small_env [entry_1_byte, entry_0_bytes] = Inl e \<and>
        err_code e = Some ''INVALID_REQUEST'' \<and> err_status e = Some 400) \<and>
   entry_size entry_4_bytes = le_maxSingleFileSize small_env + 1 \<and>
   (\<exists>e. prepare_files small_env [entry_4_bytes] = Inl e \<and>
        err_code e = Some ''INVALID_REQUEST'' \<and> err_status e = Some 400) \<and>
   prepare_files small_env ([entry_3_bytes] @ entry_2_bytes # [entry_0_bytes]) =
     Inl (total_size_error small_env)"
proof -
  have v1: "entries_valid small_env [entry_3_bytes, entry_1_byte]" by code_simp
  have s1: "sum_list (map entry_size [entry_3_bytes, entry_1_byte]) = le_maxTotalSize small_env"
    by code_simp
  have v2: "entries_valid small_env [entry_3_bytes, entry_2_bytes]" by code_simp
  have s2: "sum_list (map entry_size [entry_3_bytes, entry_2_bytes]) =
              le_maxTotalSize small_env + 1"
    by code_simp
  have m: "0 \<le> le_maxTotalSize small_env" by code_simp
  have z: "entry_size entry_0_bytes = 0" by code_simp
  have b: "entry_size entry_4_bytes = le_maxSingleFileSize small_env + 1" by code_simp
  have v0: "entries_valid small_env [entry_3_bytes]"
    and s0: "sum_list (map entry_size [entry_3_bytes]) \<le> le_maxTotalSize small_env"
    by code_simp+
  with budgeter_size_limits [of "[entry_3_bytes]" small_env]
  obtain ps where pre: "prepare_files small_env [entry_3_bytes] = Inr ps" by blast
  have n: "entry_name entry_2_bytes = Inr ''b.bin''"
    and c: "entry_content entry_2_bytes = Inr ''QUI=''"
    and r: "0 < entry_size entry_2_bytes"
      "entry_size entry_2_bytes \<le> le_maxSingleFileSize small_env"
      "sum_list (map entry_size [entry_3_bytes]) + entry_size entry_2_bytes
         > le_maxTotalSize small_env"
    by code_simp+
  note t1 = budgeter_size_limits [of "[entry_3_bytes, entry_1_byte]" small_env]
  note t2 = budgeter_size_limits [of "[entry_3_bytes, entry_2_bytes]" small_env]
  note t3 = budgeter_size_limits [of "[entry_1_byte, entry_0_bytes]" small_env]
  note t4 = budgeter_size_limits [of "[entry_4_bytes]" small_env]
  from s1 have s1': "sum_list (map entry_size [entry_3_bytes, entry_1_byte])
                      \<le> le_maxTotalSize small_env" by simp
  from t1 v1 s1' obtain ps1 where
    "prepare_files small_env [entry_3_bytes, entry_1_byte] = Inr ps1 \<and>
     length ps1 = length [entry_3_bytes, entry_1_byte]"
    by blast
  then have c1: "\<exists>ps. prepare_files small_env [entry_3_bytes, entry_1_byte] = Inr ps \<and>
                     length ps = 2"
    by simp
  from s2 have s2': "sum_list (map entry_size [entry_3_bytes, entry_2_bytes])
                      > le_maxTotalSize small_env" by simp
  from t2 v2 s2' m
  have c2: "prepare_files small_env [entry_3_bytes, entry_2_bytes] =
              Inl (total_size_error small_env)"
    by blast
  have i3: "entry_0_bytes \<in> set [entry_1_byte, entry_0_bytes]" by simp
  from z have z': "entry_size entry_0_bytes \<le> 0" by simp
  from t3 i3 z'
  have c3: "\<exists>e. prepare_files small_env [entry_1_byte, entry_0_bytes] = Inl e \<and>
               err_code e = Some ''INVALID_REQUEST'' \<and> err_status e = Some 400"
    by blast
  have i4: "entry_4_bytes \<in> set [entry_4_bytes]" by simp
  from b have b': "entry_size entry_4_bytes > le_maxSingleFileSize small_env" by simp
  from t4 i4 b'
  have c4: "\<exists>e. prepare_files small_env [entry_4_bytes] = Inl e \<and>
               err_code e = Some ''INVALID_REQUEST'' \<and> err_status e = Some 400"
    by blast
  from t1 pre m n c r
  have c5: "prepare_files small_env ([entry_3_bytes] @ entry_2_bytes # [entry_0_bytes]) =
              Inl (total_size_error small_env)"
    by blast
  from v1 s1 c1 v2 s2 c2 z c3 b c4 c5 show ?thesis by blast
qed


section \<open>The handler's runs\<close>

lemma get_prop_set_field:
  "get_prop (Obj (set_field k v props)) k' = (if k' = k then v else get_prop (Obj props) k')"
  by (induction props) auto

lemma error_response_props:
  "get_prop (resp_body (error_response c m st)) ''success'' = Bool False"
  "get_prop (resp_body (error_response c m st)) ''code'' = Str c"
  "resp_status (error_response c m st) = st"
  by (simp_all add: error_response_def jsonResponse_def json_obj_def)

lemma toErrorResponse_fails:
  "get_prop (resp_body (toErrorResponse e fallbackCode)) ''success'' = Bool False"
  by (simp add: toErrorResponse_def jsonResponse_def json_obj_def)

lemma toErrorResponse_invalid_request:
  "err_code e = Some ''INVALID_REQUEST'' \<Longrightarrow> err_status e = Some 400 \<Longrightarrow>
   resp_status (toErrorResponse e fallbackCode) = 400 \<and>
   get_prop (resp_body (toErrorResponse e fallbackCode)) ''code'' = Str ''INVALID_REQUEST''"
  by (simp add: toErrorResponse_def jsonResponse_def json_obj_def status_or_def)

lemma validate_request_Return:
  "validate_request w mf = Return r \<Longrightarrow> get_prop (resp_body r) ''success'' = Bool False"
  by (auto simp: validate_request_def Let_def error_response_props
           split: sum.splits if_splits option.splits jsval.splits)

lemma resolve_channel_Return:
  "resolve_channel w cn = Return r \<Longrightarrow> get_prop (resp_body r) ''success'' = Bool False"
  by (auto simp: resolve_channel_def Let_def error_response_props
           split: sum.splits if_splits)

lemma validated_requestId:
  "validated w = Some rq \<Longrightarrow> rq_requestId rq = Str rid \<Longrightarrow> rid \<noteq> []"
  by (auto simp: validated_def validate_request_def Let_def js_trim_def drop_trailing_def
           split: outcome.splits sum.splits if_splits option.splits jsval.splits)

lemma validated_Continue:
  "validated w = Some rq \<longleftrightarrow> validate_request w (maxFiles w) = Continue rq"
  by (simp add: validated_def split: outcome.splits)

lemma maxTotalSize_positive: "0 < maxTotalSize w"
  by (simp add: maxTotalSize_def parseLimit_def DEFAULT_MAX_TOTAL_SIZE_def split: option.splits)

lemma ledger_lookup_commits:
  "st_commits (snd (ledger_lookup key s)) = st_commits s"
  by (simp add: ledger_lookup_def db_delete_def Let_def split: option.splits)

lemma set_uploadFolder_param_sel [simp]:
  "st_commits (set_uploadFolder_param rq s) = st_commits s"
  "st_db (set_uploadFolder_param rq s) = st_db s"
  by (simp_all add: set_uploadFolder_param_def)

lemma record_file_commits:
  "st_commits (record_file w ch m file s) = st_commits s"
  by (simp add: record_file_def db_put_def Let_def split: option.splits sum.splits)

lemma record_files_commits:
  "st_commits (record_files w ch m files s) = st_commits s"
  by (induction files arbitrary: s) (simp_all add: record_file_commits)

lemma commit_and_record_commits:
  "st_commits (snd (commit_and_record w rq ch ps s)) =
     st_commits s @ [commit_call_of ch (rq_commitMessage rq) ps]"
  by (simp add: commit_and_record_def Let_def record_files_commits db_put_def
           split: sum.splits option.splits)



text \<open>The five ways a run ends.\<close>

lemma run_not_validated:
  assumes "validated w = None"
  shows "snd (onRequestPost w s) = s \<and>
         get_prop (resp_body (fst (onRequestPost w s))) ''success'' = Bool False"
  using assms
  by (auto simp: onRequestPost_def try_block_def validated_def toErrorResponse_fails
           dest: validate_request_Return split: outcome.splits)

lemma run_replayed:
  assumes "validated w = Some rq"
    and "ledger_lookup (idempotencyKey (rq_requestId rq)) (set_uploadFolder_param rq s) =
           (Some replay, s2)"
  shows "onRequestPost w s = (replay, s2)"
  using assms by (simp add: onRequestPost_def try_block_def validated_Continue)

lemma run_stopped:
  assumes "validated w = Some rq" and "\<not> replayed w s" and "budgeter_input w s = None"
  shows "st_commits (snd (onRequestPost w s)) = st_commits s \<and>
         get_prop (resp_body (fst (onRequestPost w s))) ''success'' = Bool False"
proof -
  from assms(1) have v: "validate_request w (maxFiles w) = Continue rq"
    by (simp add: validated_Continue)
  obtain r s2 where l: "ledger_lookup (idempotencyKey (rq_requestId rq))
                          (set_uploadFolder_param rq s) = (r, s2)"
    by (cases "ledger_lookup (idempotencyKey (rq_requestId rq)) (set_uploadFolder_param rq s)")
  with assms(1,2) have r: "r = None" by (simp add: replayed_def)
  from l have c: "st_commits s2 = st_commits s"
    using ledger_lookup_commits [of "idempotencyKey (rq_requestId rq)" "set_uploadFolder_param rq s"]
    by simp
  from assms v l r c show ?thesis
    by (auto simp: onRequestPost_def try_block_def budgeter_input_def toErrorResponse_fails
             dest: resolve_channel_Return split: outcome.splits sum.splits)
qed

lemma run_budgeter:
  assumes "budgeter_input w s = Some (env, files)"
  shows "\<exists>rq hfChannel s2.
           validated w = Some rq \<and> files = rq_files rq \<and>
           le_normalizedFolder env = rq_normalizedFolder rq \<and>
           le_maxTotalSize env = maxTotalSize w \<and>
           le_maxSingleFileSize env = maxSingleFileSize w \<and>
           st_commits s2 = st_commits s \<and>
           onRequestPost w s =
             (case prepare_files env files of
                Inl e \<Rightarrow> (toErrorResponse e ''INTERNAL_ERROR'', s2)
              | Inr ps \<Rightarrow>
                  (case commit_and_record w rq hfChannel ps s2 of
                     (Inl e, s') \<Rightarrow> (toErrorResponse e ''INTERNAL_ERROR'', s')
                   | (Inr r, s') \<Rightarrow> (r, s')))"
proof -
  from assms obtain rq where rq: "validated w = Some rq"
    by (auto simp: budgeter_input_def split: option.splits)
  with assms have nr: "\<not> replayed w s" by (auto simp: budgeter_input_def split: if_splits)
  from rq have v: "validate_request w (maxFiles w) = Continue rq" by (simp add: validated_Continue)
  obtain r s2 where l: "ledger_lookup (idempotencyKey (rq_requestId rq))
                          (set_uploadFolder_param rq s) = (r, s2)"
    by (cases "ledger_lookup (idempotencyKey (rq_requestId rq)) (set_uploadFolder_param rq s)")
  with rq nr have r: "r = None" by (simp add: replayed_def)
  from l have c: "st_commits s2 = st_commits s"
    using ledger_lookup_commits [of "idempotencyKey (rq_requestId rq)" "set_uploadFolder_param rq s"]
    by simp
  from assms rq nr obtain hfChannel uploadAddress where
    ch: "resolve_channel w (rq_channelName rq) = Continue hfChannel"
    and ip: "getIPAddress w = Inr uploadAddress"
    and env: "env = budgeter_env w rq uploadAddress" and files: "files = rq_files rq"
    by (auto simp: budgeter_input_def split: outcome.splits sum.splits)
  have "onRequestPost w s =
          (case prepare_files env files of
             Inl e \<Rightarrow> (toErrorResponse e ''INTERNAL_ERROR'', s2)
           | Inr ps \<Rightarrow>
               (case commit_and_record w rq hfChannel ps s2 of
                  (Inl e, s') \<Rightarrow> (toErrorResponse e ''INTERNAL_ERROR'', s')
                | (Inr r, s') \<Rightarrow> (r, s')))"
    using v l r ch ip env files
    by (simp add: onRequestPost_def try_block_def split: sum.splits)
  with rq files env c show ?thesis by (auto simp: budgeter_env_def)
qed


lemma run_commits:
  "st_commits (snd (onRequestPost w s)) =
     (if reaches_commit w s
      then st_commits s @ [last (st_commits (snd (onRequestPost w s)))]
      else st_commits s)"
proof (cases "validated w")
  case None
  then have "\<not> reaches_commit w s" by (simp add: reaches_commit_def budgeter_input_def)
  with run_not_validated [OF None, of s] show ?thesis by simp
next
  case (Some rq)
  show ?thesis
  proof (cases "replayed w s")
    case True
    then have nc: "\<not> reaches_commit w s"
      using Some by (simp add: reaches_commit_def budgeter_input_def)
    obtain r s2 where l: "ledger_lookup (idempotencyKey (rq_requestId rq))
                            (set_uploadFolder_param rq s) = (r, s2)"
      by (cases "ledger_lookup (idempotencyKey (rq_requestId rq)) (set_uploadFolder_param rq s)")
    with True Some obtain replay where r: "r = Some replay" by (auto simp: replayed_def)
    from l have "st_commits s2 = st_commits s"
      using ledger_lookup_commits [of "idempotencyKey (rq_requestId rq)"
                                      "set_uploadFolder_param rq s"]
      by simp
    with run_replayed [OF Some l [unfolded r]] nc show ?thesis by simp
  next
    case False
    show ?thesis
    proof (cases "budgeter_input w s")
      case None
      then have "\<not> reaches_commit w s" by (simp add: reaches_commit_def)
      with run_stopped [OF Some False None] show ?thesis by simp
    next
      case (Some inp)
      obtain env files where inp: "inp = (env, files)" by (cases inp)
      from run_budgeter [OF Some [unfolded inp]] obtain rq' hfChannel s2 where
        mt: "le_maxTotalSize env = maxTotalSize w"
        and c: "st_commits s2 = st_commits s"
        and run: "onRequestPost w s =
             (case prepare_files env files of
                Inl e \<Rightarrow> (toErrorResponse e ''INTERNAL_ERROR'', s2)
              | Inr ps \<Rightarrow>
                  (case commit_and_record w rq' hfChannel ps s2 of
                     (Inl e, s') \<Rightarrow> (toErrorResponse e ''INTERNAL_ERROR'', s')
                   | (Inr r, s') \<Rightarrow> (r, s')))"
        by blast
      have nonneg: "0 \<le> le_maxTotalSize env" using mt maxTotalSize_positive [of w] by simp
      have rc: "reaches_commit w s \<longleftrightarrow> batch_valid env files"
        using Some inp by (simp add: reaches_commit_def)
      show ?thesis
      proof (cases "prepare_files env files")
        case (Inl e)
        then have "\<not> batch_valid env files"
          using prepare_files_iff_valid [OF nonneg, of files] by simp
        with run Inl c rc show ?thesis by simp
      next
        case (Inr ps)
        then have "batch_valid env files"
          using prepare_files_iff_valid [OF nonneg, of files] by auto
        moreover have "st_commits (snd (onRequestPost w s)) =
                         st_commits s2 @ [commit_call_of hfChannel (rq_commitMessage rq') ps]"
          using run Inr commit_and_record_commits [of w rq' hfChannel ps s2]
          by (simp split: prod.splits sum.splits)
        ultimately show ?thesis using c rc by simp
      qed
    qed
  qed
qed

lemma run_commit_files:
  assumes "reaches_commit w s" and "budgeter_input w s = Some (env, files)"
  shows "map uf_filePath (cc_files (last (st_commits (snd (onRequestPost w s))))) =
           map (entry_fullId (le_normalizedFolder env)) files"
proof -
  from run_budgeter [OF assms(2)] obtain rq hfChannel s2 where
    mt: "le_maxTotalSize env = maxTotalSize w"
    and run: "onRequestPost w s =
         (case prepare_files env files of
            Inl e \<Rightarrow> (toErrorResponse e ''INTERNAL_ERROR'', s2)
          | Inr ps \<Rightarrow>
              (case commit_and_record w rq hfChannel ps s2 of
                 (Inl e, s') \<Rightarrow> (toErrorResponse e ''INTERNAL_ERROR'', s')
               | (Inr r, s') \<Rightarrow> (r, s')))"
    by blast
  have nonneg: "0 \<le> le_maxTotalSize env" using mt maxTotalSize_positive [of w] by simp
  from assms have "batch_valid env files" by (simp add: reaches_commit_def)
  with prepare_files_iff_valid [OF nonneg, of files]
  obtain ps where ps: "prepare_files env files = Inr ps" by auto
  have "st_commits (snd (onRequestPost w s)) =
          st_commits s2 @ [commit_call_of hfChannel (rq_commitMessage rq) ps]"
    using run ps commit_and_record_commits [of w rq hfChannel ps s2]
    by (simp split: prod.splits sum.splits)
  then have "cc_files (last (st_commits (snd (onRequestPost w s)))) = map to_upload ps"
    by (simp add: commit_call_of_def)
  moreover have "map uf_filePath (map to_upload ps) = map pf_filePath ps"
    by (simp add: to_upload_def)
  ultimately show ?thesis using prepare_files_Inr_D [OF ps nonneg] by simp
qed

text \<open>
  Claim C1, as the code has it. A run invokes \<^verbatim>\<open>uploadFilesInSingleCommit\<close> exactly once
  when it reaches the loop over the files with a valid batch, whatever the number of
  files, and the one invocation carries every file of the batch in input order; a run
  that does not get there (the caller is not authorised, the request does not pass
  validation, it is answered from the idempotency ledger, no usable channel is resolved,
  the address lookup raises, or the batch is not valid) does not invoke it at all.
\<close>

theorem single_commit_per_batch:
  "length (st_commits (snd (onRequestPost w s))) =
     length (st_commits s) + (if reaches_commit w s then 1 else 0) \<and>
   take (length (st_commits s)) (st_commits (snd (onRequestPost w s))) = st_commits s \<and>
   (\<forall>env files. reaches_commit w s \<and> budgeter_input w s = Some (env, files) \<longrightarrow>
      map uf_filePath (cc_files (last (st_commits (snd (onRequestPost w s))))) =
        map (entry_fullId (le_normalizedFolder env)) files)"
proof (intro conjI allI impI)
  show "length (st_commits (snd (onRequestPost w s))) =
          length (st_commits s) + (if reaches_commit w s then 1 else 0)"
    by (subst run_commits) simp
  show "take (length (st_commits s)) (st_commits (snd (onRequestPost w s))) = st_commits s"
    by (subst run_commits) simp
next
  fix env files
  assume "reaches_commit w s \<and> budgeter_input w s = Some (env, files)"
  then show "map uf_filePath (cc_files (last (st_commits (snd (onRequestPost w s))))) =
               map (entry_fullId (le_normalizedFolder env)) files"
    using run_commit_files by blast
qed

theorem single_commit_per_batch_witness:
  "reaches_commit demo_world empty_state \<and>
   map_option snd (budgeter_input demo_world empty_state) = Some demo_files \<and>
   st_commits empty_state = [] \<and>
   length (st_commits (snd (onRequestPost demo_world empty_state))) = 1 \<and>
   map uf_filePath (cc_files (last (st_commits (snd (onRequestPost demo_world empty_state))))) =
     [''demo/a.jpg'', ''demo/info.txt'']"
proof -
  have r: "reaches_commit demo_world empty_state" by code_simp
  have f: "map_option snd (budgeter_input demo_world empty_state) = Some demo_files"
    by code_simp
  then obtain env where b: "budgeter_input demo_world empty_state = Some (env, demo_files)"
    by (cases "budgeter_input demo_world empty_state") auto
  have e: "st_commits empty_state = []" by code_simp
  have folder: "map_option (le_normalizedFolder \<circ> fst) (budgeter_input demo_world empty_state) =
                  Some ''demo''" by code_simp
  with b have fo: "le_normalizedFolder env = ''demo''" by simp
  have ids: "map (entry_fullId ''demo'') demo_files = [''demo/a.jpg'', ''demo/info.txt'']"
    by code_simp
  note t = single_commit_per_batch [of demo_world empty_state]
  from t r e have 1: "length (st_commits (snd (onRequestPost demo_world empty_state))) = 1"
    by simp
  from t r b fo ids
  have 2: "map uf_filePath
             (cc_files (last (st_commits (snd (onRequestPost demo_world empty_state))))) =
           [''demo/a.jpg'', ''demo/info.txt'']"
    by metis
  from r f e 1 2 show ?thesis by blast
qed

text \<open>The claim as stated fails: a batch that is valid (two files within the count
  limit, each passing normalization with a size within the limit, the total within the
  limit, the target paths distinct) is answered from the idempotency ledger without any invocation.\<close>

theorem single_commit_per_batch_counterexample:
  "map_option rq_files (validated demo_world) = Some demo_files \<and>
   listed_valid demo_world demo_files \<and>
   distinct (map (entry_fullId ''demo'') demo_files) \<and>
   st_commits replay_state = [] \<and>
   st_commits (snd (onRequestPost demo_world replay_state)) = []"
  by code_simp


section \<open>The idempotency ledger\<close>

lemma ledger_hit:
  assumes "st_db s k = Some entry" and "de_value entry = Json (Obj props)"
  shows "ledger_lookup (Some k) s =
           (Some (jsonResponse (Obj (set_field ''idempotent'' (Bool True) props)) 200), s)"
  using assms by (simp add: ledger_lookup_def)

text \<open>
  Claim C2. For every request that passes validation and carries a request identifier
  under which the ledger holds a text that parses as a JSON object, the handler returns
  that object with \<^verbatim>\<open>idempotent\<close> set to true and every other property as stored, with
  status 200; the backend's submission is not invoked and the store is not changed.
\<close>

theorem idempotent_replay:
  assumes "validated w = Some rq" and "rq_requestId rq = Str rid"
    and "st_db s (''manage@hf_batch_request@'' @ rid) = Some entry"
    and "de_value entry = Json (Obj props)"
  shows "fst (onRequestPost w s) =
           jsonResponse (Obj (set_field ''idempotent'' (Bool True) props)) 200 \<and>
         resp_status (fst (onRequestPost w s)) = 200 \<and>
         get_prop (resp_body (fst (onRequestPost w s))) ''idempotent'' = Bool True \<and>
         (\<forall>k. k \<noteq> ''idempotent'' \<longrightarrow>
              get_prop (resp_body (fst (onRequestPost w s))) k = get_prop (Obj props) k) \<and>
         st_commits (snd (onRequestPost w s)) = st_commits s \<and>
         st_db (snd (onRequestPost w s)) = st_db s"
proof -
  from validated_requestId [OF assms(1,2)] have "rid \<noteq> []" .
  with assms(2) have key: "idempotencyKey (rq_requestId rq) =
                             Some (''manage@hf_batch_request@'' @ rid)"
    by (simp add: idempotencyKey_def)
  from assms(3) have "st_db (set_uploadFolder_param rq s) (''manage@hf_batch_request@'' @ rid) =
                        Some entry" by simp
  from ledger_hit [OF this assms(4)] key
  have "ledger_lookup (idempotencyKey (rq_requestId rq)) (set_uploadFolder_param rq s) =
          (Some (jsonResponse (Obj (set_field ''idempotent'' (Bool True) props)) 200),
           set_uploadFolder_param rq s)"
    by simp
  from run_replayed [OF assms(1) this]
  have run: "onRequestPost w s =
               (jsonResponse (Obj (set_field ''idempotent'' (Bool True) props)) 200,
                set_uploadFolder_param rq s)" .
  then show ?thesis
    by (simp add: jsonResponse_def get_prop_set_field del: get_prop.simps)
qed

theorem idempotent_replay_witness:
  "map_option rq_requestId (validated demo_world) = Some (Str ''r1'') \<and>
   map_option de_value (st_db replay_state (''manage@hf_batch_request@'' @ ''r1'')) =
     Some (Json (Obj stored_props)) \<and>
   resp_status (fst (onRequestPost demo_world replay_state)) = 200 \<and>
   resp_body (fst (onRequestPost demo_world replay_state)) =
     Obj (stored_props @ [(''idempotent'', Bool True)]) \<and>
   st_commits (snd (onRequestPost demo_world replay_state)) = st_commits replay_state"
proof -
  have v: "map_option rq_requestId (validated demo_world) = Some (Str ''r1'')" by code_simp
  then obtain rq where rq: "validated demo_world = Some rq" "rq_requestId rq = Str ''r1''"
    by (cases "validated demo_world") auto
  have d: "map_option de_value (st_db replay_state (''manage@hf_batch_request@'' @ ''r1'')) =
             Some (Json (Obj stored_props))" by code_simp
  then obtain entry where
    e: "st_db replay_state (''manage@hf_batch_request@'' @ ''r1'') = Some entry"
      "de_value entry = Json (Obj stored_props)"
    by (cases "st_db replay_state (''manage@hf_batch_request@'' @ ''r1'')") auto
  have sf: "set_field ''idempotent'' (Bool True) stored_props =
              stored_props @ [(''idempotent'', Bool True)]" by code_simp
  note t = idempotent_replay [OF rq e]
  from t have 1: "resp_status (fst (onRequestPost demo_world replay_state)) = 200" by blast
  from t sf have 2: "resp_body (fst (onRequestPost demo_world replay_state)) =
                       Obj (stored_props @ [(''idempotent'', Bool True)])"
    by (simp add: jsonResponse_def)
  from t have 3: "st_commits (snd (onRequestPost demo_world replay_state)) =
                    st_commits replay_state" by blast
  from v d 1 2 3 show ?thesis by blast
qed

text \<open>A stored text that does not parse, or parses to null, a boolean, a number or a
  string, is deleted, and the run goes on as from a store without the entry.\<close>

lemma db_delete_set_uploadFolder_param:
  "db_delete k (set_uploadFolder_param rq s) = set_uploadFolder_param rq (db_delete k s)"
  by (simp add: db_delete_def set_uploadFolder_param_def)

lemma ledger_lookup_corrupt:
  assumes "st_db s k = Some entry" and "text_truthy (de_value entry)"
    and "case JSON_parse (de_value entry) of
           None \<Rightarrow> True
         | Some p \<Rightarrow> \<not> truthy p \<or> \<not> typeof_object p"
  shows "ledger_lookup (Some k) s = (None, db_delete k s)"
  using assms by (auto simp: ledger_lookup_def Let_def split: option.splits)

lemma ledger_lookup_absent:
  "st_db s k = None \<Longrightarrow> ledger_lookup (Some k) s = (None, s)"
  by (simp add: ledger_lookup_def)

lemma corrupt_entry_treated_as_miss:
  assumes "validated w = Some rq" and "idempotencyKey (rq_requestId rq) = Some k"
    and "st_db s k = Some entry" and "text_truthy (de_value entry)"
    and "case JSON_parse (de_value entry) of
           None \<Rightarrow> True
         | Some p \<Rightarrow> \<not> truthy p \<or> \<not> typeof_object p"
  shows "onRequestPost w s = onRequestPost w (db_delete k s)"
proof -
  from assms(1) have v: "validate_request w (maxFiles w) = Continue rq"
    by (simp add: validated_Continue)
  from assms(3) have "st_db (set_uploadFolder_param rq s) k = Some entry" by simp
  from ledger_lookup_corrupt [OF this assms(4,5)]
  have 1: "ledger_lookup (Some k) (set_uploadFolder_param rq s) =
             (None, db_delete k (set_uploadFolder_param rq s))" .
  have "st_db (set_uploadFolder_param rq (db_delete k s)) k = None"
    by (simp add: db_delete_def)
  from ledger_lookup_absent [OF this]
  have 2: "ledger_lookup (Some k) (set_uploadFolder_param rq (db_delete k s)) =
             (None, set_uploadFolder_param rq (db_delete k s))" .
  show ?thesis
    unfolding onRequestPost_def try_block_def
    by (simp add: v assms(2) 1 2 db_delete_set_uploadFolder_param)
qed

text \<open>
  Claim C8. A stored value that does not parse as a JSON object is to be deleted and the
  lookup treated as a miss. A stored array is not: \<^verbatim>\<open>typeof\<close> of an array is
  \<^verbatim>\<open>'object'\<close>, so the array is returned as the replayed response with status 200, the
  entry stays in the store, and the batch is not committed.
\<close>

theorem stored_array_is_replayed:
  "map_option de_value (st_db array_state ''manage@hf_batch_request@r1'') =
     Some (Json (Arr [Str ''x''])) \<and>
   fst (onRequestPost demo_world array_state) = jsonResponse (Arr [Str ''x'']) 200 \<and>
   map_option de_value
     (st_db (snd (onRequestPost demo_world array_state)) ''manage@hf_batch_request@r1'') =
     Some (Json (Arr [Str ''x''])) \<and>
   st_commits (snd (onRequestPost demo_world array_state)) = [] \<and>
   length (st_commits (snd (onRequestPost demo_world empty_state))) = 1"
  by code_simp


section \<open>The response of a batch\<close>

lemma response_entries_listing:
  "map (\<lambda>p. Inr (pf_name p)) ps = map entry_name files \<Longrightarrow>
   map pf_fullId ps = map (entry_fullId folder) files \<Longrightarrow>
   map response_entry ps = map (listing folder) files"
proof (induction ps arbitrary: files)
  case Nil
  then show ?case by simp
next
  case (Cons p ps)
  from Cons.prems(1) obtain entry rest where files: "files = entry # rest" by (cases files) auto
  with Cons.prems have n: "entry_name entry = Inr (pf_name p)"
    and i: "pf_fullId p = entry_fullId folder entry"
    and r: "map (\<lambda>p. Inr (pf_name p)) ps = map entry_name rest"
      "map pf_fullId ps = map (entry_fullId folder) rest"
    by simp_all
  from n i have "response_entry p = listing folder entry"
    by (simp add: response_entry_def listing_def json_obj_def)
  with Cons.IH [OF r] files show ?case by simp
qed


lemma ledger_lookup_db:
  "st_db (snd (ledger_lookup key s)) k = st_db s k \<or> st_db (snd (ledger_lookup key s)) k = None"
  by (simp add: ledger_lookup_def db_delete_def Let_def split: option.splits)

lemma run_commit_input:
  assumes "commit_input w s = Some (rq, ch, ps, s2)"
  shows "validated w = Some rq \<and> \<not> replayed w s \<and>
         s2 = snd (ledger_lookup (idempotencyKey (rq_requestId rq)) (set_uploadFolder_param rq s)) \<and>
         (\<exists>addr. prepare_files (budgeter_env w rq addr) (rq_files rq) = Inr ps) \<and>
         onRequestPost w s =
           (case commit_and_record w rq ch ps s2 of
              (Inl e, s') \<Rightarrow> (toErrorResponse e ''INTERNAL_ERROR'', s')
            | (Inr r, s') \<Rightarrow> (r, s'))"
proof -
  from assms obtain rq' where v: "validated w = Some rq'"
    by (auto simp: commit_input_def split: option.splits)
  obtain r s2' where l: "ledger_lookup (idempotencyKey (rq_requestId rq'))
                          (set_uploadFolder_param rq' s) = (r, s2')"
    by (cases "ledger_lookup (idempotencyKey (rq_requestId rq')) (set_uploadFolder_param rq' s)")
  from assms v l have r: "r = None"
    by (auto simp: commit_input_def split: option.splits)
  from assms v l r obtain addr where
    ch: "resolve_channel w (rq_channelName rq') = Continue ch"
    and ip: "getIPAddress w = Inr addr"
    and pf: "prepare_files (budgeter_env w rq' addr) (rq_files rq') = Inr ps"
    and eq: "rq' = rq" "s2' = s2"
    by (auto simp: commit_input_def split: outcome.splits sum.splits)
  from v have vr: "validate_request w (maxFiles w) = Continue rq'" by (simp add: validated_Continue)
  have run: "onRequestPost w s =
           (case commit_and_record w rq ch ps s2 of
              (Inl e, s') \<Rightarrow> (toErrorResponse e ''INTERNAL_ERROR'', s')
            | (Inr r, s') \<Rightarrow> (r, s'))"
    using vr l r ch ip pf eq
    by (simp add: onRequestPost_def try_block_def split: sum.splits prod.splits)
  from v l r have "\<not> replayed w s" by (simp add: replayed_def)
  with v l eq pf run show ?thesis by auto
qed




lemma record_file_db_kept:
  "st_db s k \<noteq> None \<Longrightarrow> st_db (record_file w ch m p s) k \<noteq> None"
  by (simp add: record_file_def db_put_def Let_def split: option.splits sum.splits)

lemma record_file_db_own:
  "st_db (record_file w ch m p s) (pf_fullId p) \<noteq> None"
  by (simp add: record_file_def db_put_def Let_def split: option.splits sum.splits)

lemma record_files_db_kept:
  "st_db s k \<noteq> None \<Longrightarrow> st_db (record_files w ch m ps s) k \<noteq> None"
proof (induction ps arbitrary: s)
  case Nil
  then show ?case by simp
next
  case (Cons p ps)
  from Cons.prems have "st_db (record_file w ch m p s) k \<noteq> None" by (rule record_file_db_kept)
  from Cons.IH [OF this] show ?case by simp
qed

lemma record_files_db:
  "p \<in> set ps \<Longrightarrow> st_db (record_files w ch m ps s) (pf_fullId p) \<noteq> None"
proof (induction ps arbitrary: s)
  case Nil
  then show ?case by simp
next
  case (Cons q ps)
  show ?case
  proof (cases "p = q")
    case True
    have "st_db (record_file w ch m q s) (pf_fullId q) \<noteq> None" by (rule record_file_db_own)
    from record_files_db_kept [OF this] True show ?thesis by simp
  next
    case False
    with Cons show ?thesis by simp
  qed
qed




lemma run_commit_input_env:
  assumes "commit_input w s = Some (rq, ch, ps, s2)"
  shows "map response_entry ps = map (listing (rq_normalizedFolder rq)) (rq_files rq) \<and>
         map pf_fullId ps = map (entry_fullId (rq_normalizedFolder rq)) (rq_files rq)"
proof -
  from run_commit_input [OF assms] obtain addr where
    pf: "prepare_files (budgeter_env w rq addr) (rq_files rq) = Inr ps" by blast
  have nonneg: "0 \<le> le_maxTotalSize (budgeter_env w rq addr)"
    using maxTotalSize_positive [of w] by (simp add: budgeter_env_def)
  have folder: "le_normalizedFolder (budgeter_env w rq addr) = rq_normalizedFolder rq"
    by (simp add: budgeter_env_def)
  from prepare_files_Inr_D [OF pf nonneg] folder
  have ids: "map pf_fullId ps = map (entry_fullId (rq_normalizedFolder rq)) (rq_files rq)"
    and names: "map (\<lambda>p. Inr (pf_name p)) ps = map entry_name (rq_files rq)"
    by simp_all
  from response_entries_listing [OF names ids] ids show ?thesis by simp
qed









text \<open>Left out of the statement above: a failure after the submission returned. When the
  lookup of the security configuration raises, the transaction is committed, no index
  record and no ledger entry is written, and the answer is the classification of that
  error; when the backend returns null or undefined, every index record is written and
  the answer is INTERNAL_ERROR with status 500.\<close>

lemma failure_after_submission:
  assumes "submission w s = Some (Inr u)"
  shows "(\<forall>e. fetchSecurityConfig w = Inl e \<longrightarrow>
            fst (onRequestPost w s) = toErrorResponse e ''INTERNAL_ERROR'' \<and>
            length (st_commits (snd (onRequestPost w s))) = Suc (length (st_commits s)) \<and>
            nothing_written s (snd (onRequestPost w s))) \<and>
         (\<forall>c. fetchSecurityConfig w = Inr c \<and> (u = Null \<or> u = Undefined) \<longrightarrow>
            resp_status (fst (onRequestPost w s)) = 500 \<and>
            get_prop (resp_body (fst (onRequestPost w s))) ''code'' = Str ''INTERNAL_ERROR'' \<and>
            length (st_commits (snd (onRequestPost w s))) = Suc (length (st_commits s)) \<and>
            (\<exists>rq. validated w = Some rq \<and>
               list_all (\<lambda>entry. st_db (snd (onRequestPost w s))
                                   (entry_fullId (rq_normalizedFolder rq) entry) \<noteq> None)
                 (rq_files rq)))"
proof -
  from assms obtain rq ch ps s2 where ci: "commit_input w s = Some (rq, ch, ps, s2)"
    and up: "uploadFilesInSingleCommit w (commit_call_of ch (rq_commitMessage rq) ps) = Inr u"
    by (auto simp: submission_def split: option.splits)
  from run_commit_input [OF ci]
  have v: "validated w = Some rq"
    and s2: "s2 = snd (ledger_lookup (idempotencyKey (rq_requestId rq))
                        (set_uploadFolder_param rq s))"
    and run: "onRequestPost w s =
           (case commit_and_record w rq ch ps s2 of
              (Inl e, s') \<Rightarrow> (toErrorResponse e ''INTERNAL_ERROR'', s')
            | (Inr r, s') \<Rightarrow> (r, s'))"
    by blast+
  from s2 have c: "st_commits s2 = st_commits s" by (simp add: ledger_lookup_commits)
  from s2 have d: "nothing_written s s2"
    using ledger_lookup_db [of "idempotencyKey (rq_requestId rq)" "set_uploadFolder_param rq s"]
    by (simp add: nothing_written_def)
  from run_commit_input_env [OF ci]
  have ids: "map pf_fullId ps = map (entry_fullId (rq_normalizedFolder rq)) (rq_files rq)"
    by blast
  have 1: "fst (onRequestPost w s) = toErrorResponse e ''INTERNAL_ERROR'' \<and>
           length (st_commits (snd (onRequestPost w s))) = Suc (length (st_commits s)) \<and>
           nothing_written s (snd (onRequestPost w s))"
    if "fetchSecurityConfig w = Inl e" for e
    using that run up c d by (simp add: commit_and_record_def Let_def nothing_written_def)
  have 2: "resp_status (fst (onRequestPost w s)) = 500 \<and>
            get_prop (resp_body (fst (onRequestPost w s))) ''code'' = Str ''INTERNAL_ERROR'' \<and>
            length (st_commits (snd (onRequestPost w s))) = Suc (length (st_commits s)) \<and>
            (\<exists>rq. validated w = Some rq \<and>
               list_all (\<lambda>entry. st_db (snd (onRequestPost w s))
                                   (entry_fullId (rq_normalizedFolder rq) entry) \<noteq> None)
                 (rq_files rq))"
    if h: "fetchSecurityConfig w = Inr c \<and> (u = Null \<or> u = Undefined)" for c
  proof -
    let ?s3 = "record_files w ch
                 (opt_get (opt_get (opt_get c ''upload'') ''moderate'') ''enabled'' = Bool True)
                 ps (s2\<lparr> st_commits := st_commits s2 @
                            [commit_call_of ch (rq_commitMessage rq) ps] \<rparr>)"
    from h up have "commit_and_record w rq ch ps s2 = (Inl TypeError, ?s3)"
      by (auto simp: commit_and_record_def Let_def)
    with run have r: "onRequestPost w s = (toErrorResponse TypeError ''INTERNAL_ERROR'', ?s3)"
      by simp
    have "\<forall>i\<in>set (map pf_fullId ps). st_db ?s3 i \<noteq> None"
      using record_files_db by auto
    then have "list_all (\<lambda>entry. st_db ?s3 (entry_fullId (rq_normalizedFolder rq) entry) \<noteq> None)
                 (rq_files rq)"
      by (simp add: ids list_all_iff)
    with r v c show ?thesis
      by (simp add: record_files_commits toErrorResponse_def TypeError_def jsonResponse_def
            json_obj_def)
  qed
  from 1 2 show ?thesis by blast
qed

section \<open>Duplicate target paths\<close>

lemma duplicate_not_valid:
  assumes "i < j" and "j < length files"
    and "entry_name (files ! i) = Inr n" and "entry_name (files ! j) = Inr n"
  shows "\<not> batch_valid env files"
proof
  assume "batch_valid env files"
  then have d: "distinct (map (entry_fullId (le_normalizedFolder env)) files)"
    by (simp add: batch_valid_def entries_valid_def)
  from assms have "map (entry_fullId (le_normalizedFolder env)) files ! i =
                   map (entry_fullId (le_normalizedFolder env)) files ! j"
    by (simp add: entry_fullId_def)
  moreover from assms(1,2) have "i < length (map (entry_fullId (le_normalizedFolder env)) files)"
    "j < length (map (entry_fullId (le_normalizedFolder env)) files)" "i \<noteq> j"
    by simp_all
  ultimately show False using d unfolding distinct_conv_nth by blast
qed

text \<open>
  Claim C5, as the code has it. For every batch in which two entries resolve to the same
  full target path, the backend's submission is never invoked; the run fails with
  INVALID_REQUEST and status 400 whenever it reaches the loop over the files, and
  otherwise is answered by an earlier stage.
\<close>

theorem duplicate_paths_rejected:
  assumes "validated w = Some rq" and "i < j" and "j < length (rq_files rq)"
    and "entry_name (rq_files rq ! i) = Inr n" and "entry_name (rq_files rq ! j) = Inr n"
  shows "st_commits (snd (onRequestPost w s)) = st_commits s \<and>
         (budgeter_input w s \<noteq> None \<longrightarrow>
            resp_status (fst (onRequestPost w s)) = 400 \<and>
            get_prop (resp_body (fst (onRequestPost w s))) ''code'' = Str ''INVALID_REQUEST'' \<and>
            get_prop (resp_body (fst (onRequestPost w s))) ''success'' = Bool False)"
proof (rule conjI)
  have "\<not> reaches_commit w s"
  proof (cases "budgeter_input w s")
    case None
    then show ?thesis by (simp add: reaches_commit_def)
  next
    case (Some input)
    obtain env files where input: "input = (env, files)" by (cases input)
    from run_budgeter [OF Some [unfolded input]] assms(1) have "files = rq_files rq" by auto
    with duplicate_not_valid [OF assms(2-5), of env] Some input show ?thesis
      by (simp add: reaches_commit_def)
  qed
  then show "st_commits (snd (onRequestPost w s)) = st_commits s"
    by (subst run_commits) simp
next
  show "budgeter_input w s \<noteq> None \<longrightarrow>
        resp_status (fst (onRequestPost w s)) = 400 \<and>
        get_prop (resp_body (fst (onRequestPost w s))) ''code'' = Str ''INVALID_REQUEST'' \<and>
        get_prop (resp_body (fst (onRequestPost w s))) ''success'' = Bool False"
  proof (rule impI)
  assume "budgeter_input w s \<noteq> None"
  then obtain env files where inp: "budgeter_input w s = Some (env, files)" by auto
  from run_budgeter [OF inp] assms(1) obtain hfChannel s2 where
    files: "files = rq_files rq"
    and mt: "le_maxTotalSize env = maxTotalSize w"
    and run: "onRequestPost w s =
         (case prepare_files env files of
            Inl e \<Rightarrow> (toErrorResponse e ''INTERNAL_ERROR'', s2)
          | Inr ps \<Rightarrow>
              (case commit_and_record w rq hfChannel ps s2 of
                 (Inl e, s') \<Rightarrow> (toErrorResponse e ''INTERNAL_ERROR'', s')
               | (Inr r, s') \<Rightarrow> (r, s')))"
    by auto
  have nonneg: "0 \<le> le_maxTotalSize env" using mt maxTotalSize_positive [of w] by simp
  from duplicate_not_valid [OF assms(2-5), of env] files
  have "\<not> batch_valid env files" by simp
  with prepare_files_iff_valid [OF nonneg, of files] prepare_files_cases [of env files]
  obtain e where e: "prepare_files env files = Inl e"
    "err_code e = Some ''INVALID_REQUEST''" "err_status e = Some 400"
    by auto
  with run have r: "fst (onRequestPost w s) = toErrorResponse e ''INTERNAL_ERROR''" by simp
  from toErrorResponse_invalid_request [OF e(2,3), of "''INTERNAL_ERROR''"] r
  show "resp_status (fst (onRequestPost w s)) = 400 \<and>
        get_prop (resp_body (fst (onRequestPost w s))) ''code'' = Str ''INVALID_REQUEST'' \<and>
        get_prop (resp_body (fst (onRequestPost w s))) ''success'' = Bool False"
    by (simp add: toErrorResponse_fails)
  qed
qed

theorem duplicate_paths_rejected_witness:
  "map_option rq_files (validated duplicate_world) = Some [entry_3_bytes, entry_3_bytes] \<and>
   entry_name entry_3_bytes = Inr ''a.jpg'' \<and>
   budgeter_input duplicate_world empty_state \<noteq> None \<and>
   st_commits (snd (onRequestPost duplicate_world empty_state)) = st_commits empty_state \<and>
   resp_status (fst (onRequestPost duplicate_world empty_state)) = 400 \<and>
   get_prop (resp_body (fst (onRequestPost duplicate_world empty_state))) ''code'' =
     Str ''INVALID_REQUEST''"
proof -
  have f: "map_option rq_files (validated duplicate_world) = Some [entry_3_bytes, entry_3_bytes]"
    by code_simp
  then obtain rq where rq: "validated duplicate_world = Some rq"
    and fs: "rq_files rq = [entry_3_bytes, entry_3_bytes]"
    by (cases "validated duplicate_world") auto
  have n: "entry_name entry_3_bytes = Inr ''a.jpg''" by code_simp
  have b: "budgeter_input duplicate_world empty_state \<noteq> None" by code_simp
  have h: "(0::nat) < 1" "1 < length (rq_files rq)"
    "entry_name (rq_files rq ! 0) = Inr ''a.jpg''" "entry_name (rq_files rq ! 1) = Inr ''a.jpg''"
    using fs n by simp_all
  note t = duplicate_paths_rejected [OF rq h, of empty_state]
  from t b f n show ?thesis by blast
qed

text \<open>The claim as stated fails: where no channel is configured, the batch with a
  duplicate target path is answered with CHANNEL_NOT_FOUND.\<close>

theorem duplicate_paths_rejected_counterexample:
  "map_option rq_files (validated duplicate_world_no_channel) =
     Some [entry_3_bytes, entry_3_bytes] \<and>
   entry_fullId ''demo'' entry_3_bytes = ''demo/a.jpg'' \<and>
   resp_status (fst (onRequestPost duplicate_world_no_channel empty_state)) = 400 \<and>
   get_prop (resp_body (fst (onRequestPost duplicate_world_no_channel empty_state))) ''code'' =
     Str ''CHANNEL_NOT_FOUND''"
  by code_simp

end
